(* ===== verification/Prelude.thy ===== *)
theory Prelude
  imports Main
begin

text \<open>
  Shared vocabulary of the development: coordinates, the nested-array update the
  solver uses for its 9x9 matrix, the collections of rewrite rules the component
  proofs share, and generic lemmas on lists and sets that the invariant proofs of
  the constraint engine and the search driver rely on.
\<close>

type_synonym coord = "nat \<times> nat"

text \<open>Facts about reading a cell of an updated matrix, used by every component.\<close>
named_theorems cell_simps

text \<open>Facts that unfold the components of the solver invariant.\<close>
named_theorems inv_defs

text \<open>
  The JavaScript assignment \<open>m[r][c] = v\<close> on an array of arrays: row \<open>r\<close> is
  replaced by its copy with position \<open>c\<close> set to \<open>v\<close>.
\<close>

definition set2 :: "'a list list \<Rightarrow> nat \<Rightarrow> nat \<Rightarrow> 'a \<Rightarrow> 'a list list" where
  "set2 m r c v = m[r := (m ! r)[c := v]]"

lemma length_set2 [simp]: "length (set2 m r c v) = length m"
  by (simp add: set2_def)

lemma nth_set2:
  "r' < length m \<Longrightarrow>
   set2 m r c v ! r' = (if r' = r then (m ! r)[c := v] else m ! r')"
  by (simp add: set2_def)

lemma set2_same_row_length [simp]:
  "r' < length m \<Longrightarrow> length (set2 m r c v ! r') = length (m ! r')"
  by (simp add: nth_set2)

lemma set2_nth_id:
  "r < length m \<Longrightarrow> c < length (m ! r) \<Longrightarrow> set2 m r c (m ! r ! c) = m"
  by (simp add: set2_def)

text \<open>Distinctness of a mapped, filtered list read as injectivity on a set.\<close>

lemma distinct_map_filter_iff:
  "distinct xs \<Longrightarrow>
   distinct (map f (filter P xs)) = inj_on f {x \<in> set xs. P x}"
  by (simp add: distinct_map)

lemma inj_on_insert_new:
  "a \<notin> A \<Longrightarrow> inj_on f (insert a A) = (inj_on f A \<and> f a \<notin> f ` A)"
  by auto

text \<open>The 3x3 block of a cell is determined by the integer quotients by three.\<close>

lemma div3_lt3: "(r::nat) < 9 \<Longrightarrow> r div 3 < 3"
  by simp

text \<open>\<open>find\<close> over an appended list, and what a found element satisfies.\<close>

lemma find_append_list:
  "find P (xs @ ys) = (case find P xs of None \<Rightarrow> find P ys | Some x \<Rightarrow> Some x)"
  by (induction xs) auto

lemma find_Some_mem: "find P xs = Some x \<Longrightarrow> x \<in> set xs \<and> P x"
  by (induction xs) (auto split: if_splits)

lemma last_filter_mem: "filter P xs = q # qs \<Longrightarrow> last (q # qs) \<in> set xs \<and> P (last (q # qs))"
proof -
  assume h: "filter P xs = q # qs"
  have "last (q # qs) \<in> set (filter P xs)" unfolding h by (rule last_in_set) simp
  then show ?thesis by simp
qed

text \<open>Writing back what a mapped list already holds changes nothing, in range or not.\<close>

lemma map_update_same: "(map f xs)[i := f (xs ! i)] = map f xs"
  by (metis length_map list_update_beyond list_update_id map_update not_le)

end
