(* ===== verification/Board.thy ===== *)
theory Board
  imports Prelude
begin

text \<open>
  Board state of \<open>src/solver.js\<close>: the JavaScript values a cell of the matrix can
  hold, the fields of a \<open>SudokuSolver\<close> object, the parser of the 81-character
  puzzle string, \<open>reset\<close>, the block numbering and the read-only accessors.
  It also defines the grid-level notions the theorems are stated in: the 27 units
  (rows, columns, blocks), consistency of a partial grid, and what a solution is.
\<close>

section \<open>JavaScript values in the matrix\<close>

text \<open>
  A cell holds \<open>null\<close> (empty; also what \<open>undefined\<close> reads as under \<open>==\<close>), a
  number produced by \<open>parseInt\<close> for a given digit, a string key produced by the
  \<open>for (var number in ...)\<close> loop of \<open>solveCell\<close> (property names are strings),
  or \<open>NaN\<close> for a puzzle character that is neither a digit nor \<open>_\<close>.
\<close>

datatype val = Null | Num nat | Key nat | NaN

text \<open>Strict equality \<open>===\<close>, as \<open>Array.prototype.indexOf\<close> uses it: a number is
  never equal to a string, and \<open>NaN\<close> is equal to nothing.\<close>

fun js_eq :: "val \<Rightarrow> val \<Rightarrow> bool" where
  "js_eq Null Null = True"
| "js_eq (Num a) (Num b) = (a = b)"
| "js_eq (Key a) (Key b) = (a = b)"
| "js_eq _ _ = False"

text \<open>The property name a value is coerced to when used as a set key
  (\<open>number in set\<close>, \<open>Set.add\<close>): the digit of a number or a string key.\<close>

fun key :: "val \<Rightarrow> nat" where
  "key (Num n) = n"
| "key (Key n) = n"
| "key Null = 0"
| "key NaN = 0"

text \<open>Truthiness, as in \<open>if (value)\<close> of \<open>init\<close>.\<close>

fun truthy :: "val \<Rightarrow> bool" where
  "truthy (Num n) = (n \<noteq> 0)"
| "truthy (Key n) = True"
| "truthy Null = False"
| "truthy NaN = False"

text \<open>\<open>Array.prototype.indexOf\<close> with strict equality, \<open>-1\<close> when absent.\<close>

fun indexOf :: "val list \<Rightarrow> val \<Rightarrow> int" where
  "indexOf [] v = -1"
| "indexOf (x # xs) v =
     (if js_eq x v then 0 else (let i = indexOf xs v in if i = -1 then -1 else i + 1))"

section \<open>The solver object\<close>

text \<open>The exception \<open>allocate\<close> throws when the 81st cell is filled.\<close>

datatype exn = SolvedException

text \<open>An entry of \<open>this.solution\<close>: \<open>{number, row, column}\<close>.\<close>

datatype step = Step val nat nat

text \<open>
  The fields of \<open>SudokuSolver\<close> that the solving logic reads and writes, plus the
  module-level counter \<open>cycles\<close>. The rendering fields (\<open>table\<close>, \<open>delay\<close>,
  \<open>_rendered\<close>, \<open>timeout\<close>) are not modelled. \<open>fixed\<close> is the object whose
  property names are the coordinate pairs; \<open>row\<close>, \<open>column\<close> and \<open>quadrant\<close>
  are arrays of nine digit sets.
\<close>

record solver =
  sudokuString :: string
  solution :: "step list"
  matrix :: "val list list"
  allocated :: int
  fixed :: "coord set"
  row :: "nat set list"
  column :: "nat set list"
  quadrant :: "nat set list"
  cycles :: nat

text \<open>\<open>_numbers\<close>: the set \<open>{1..9}\<close>.\<close>

definition numbers :: "nat set" where
  "numbers = {1..9}"

text \<open>\<open>_getQuadrantNumber\<close>.\<close>

definition quadrantNumber :: "nat \<Rightarrow> nat \<Rightarrow> nat" where
  "quadrantNumber r c = r div 3 * 3 + c div 3"

definition isFixed :: "solver \<Rightarrow> nat \<Rightarrow> nat \<Rightarrow> bool" where
  "isFixed st r c = ((r, c) \<in> fixed st)"

text \<open>Reading \<open>row[c]\<close> of a row array; past its end JavaScript yields
  \<open>undefined\<close>, which compares \<open>== null\<close> and strictly equals no digit.\<close>

definition js_at :: "val list \<Rightarrow> nat \<Rightarrow> val" where
  "js_at xs c = (if c < length xs then xs ! c else Null)"

definition cellv :: "val list list \<Rightarrow> nat \<Rightarrow> nat \<Rightarrow> val" where
  "cellv m r c = (if r < length m then js_at (m ! r) c else Null)"

section \<open>Parsing and reset\<close>

text \<open>\<open>el == "_" ? null : parseInt(el)\<close> on a one-character string.\<close>

definition parse_char :: "char \<Rightarrow> val" where
  "parse_char ch =
     (if ch = CHR ''_'' then Null
      else let n = (of_char ch :: nat) in if 48 \<le> n \<and> n \<le> 57 then Num (n - 48) else NaN)"

text \<open>\<open>parse\<close>: nine slices \<open>mapped.slice(r*9, r*9+9)\<close>; a short input gives short
  rows, a long one is cut.\<close>

definition parse :: "string \<Rightarrow> val list list" where
  "parse input =
     (let mapped = map parse_char input in map (\<lambda>r. take 9 (drop (r * 9) mapped)) [0..<9])"

text \<open>\<open>reset\<close> (the call of \<open>stopAnimation\<close> only clears a browser timer). The
  matrix becomes \<open>null\<close>, modelled as the empty array.\<close>

definition reset :: "solver \<Rightarrow> solver" where
  "reset st = st\<lparr>sudokuString := [], solution := [], matrix := [], allocated := 0,
     fixed := {}, row := replicate 9 numbers, column := replicate 9 numbers,
     quadrant := replicate 9 numbers\<rparr>"

section \<open>Cells and units\<close>

text \<open>The coordinates in the order of \<open>forEachCell\<close>: row by row.\<close>

definition cells :: "coord list" where
  "cells = [(r, c). r \<leftarrow> [0..<9], c \<leftarrow> [0..<9]]"

text \<open>\<open>getQuadrant\<close>: the values of the block of \<open>(row, column)\<close>, row by row.\<close>

definition getQuadrant :: "solver \<Rightarrow> nat \<Rightarrow> nat \<Rightarrow> val list" where
  "getQuadrant st r c =
     map (\<lambda>(r', c'). cellv (matrix st) r' c')
       (filter (\<lambda>(r', c'). quadrantNumber r c = quadrantNumber r' c') cells)"

definition row_cells :: "nat \<Rightarrow> coord list" where
  "row_cells r = map (\<lambda>c. (r, c)) [0..<9]"

definition col_cells :: "nat \<Rightarrow> coord list" where
  "col_cells c = map (\<lambda>r. (r, c)) [0..<9]"

definition quad_cells :: "nat \<Rightarrow> coord list" where
  "quad_cells q = filter (\<lambda>(r, c). quadrantNumber r c = q) cells"

definition units :: "coord list list" where
  "units = map row_cells [0..<9] @ map col_cells [0..<9] @ map quad_cells [0..<9]"

definition filled :: "val list list \<Rightarrow> coord \<Rightarrow> bool" where
  "filled m p = (cellv m (fst p) (snd p) \<noteq> Null)"

definition digit :: "val list list \<Rightarrow> coord \<Rightarrow> nat" where
  "digit m p = key (cellv m (fst p) (snd p))"

text \<open>The digits placed in a unit.\<close>

definition unit_digits :: "val list list \<Rightarrow> coord list \<Rightarrow> nat set" where
  "unit_digits m ps = digit m ` {p \<in> set ps. filled m p}"

section \<open>Well-formed and consistent grids, solutions\<close>

fun wf_val :: "val \<Rightarrow> bool" where
  "wf_val Null = True"
| "wf_val (Num d) = (1 \<le> d \<and> d \<le> 9)"
| "wf_val (Key d) = (1 \<le> d \<and> d \<le> 9)"
| "wf_val NaN = False"

definition wf_grid :: "val list list \<Rightarrow> bool" where
  "wf_grid m = (length m = 9 \<and> (\<forall>xs \<in> set m. length xs = 9 \<and> (\<forall>v \<in> set xs. wf_val v)))"

text \<open>No digit occurs twice in a row, a column or a block.\<close>

definition consistent :: "val list list \<Rightarrow> bool" where
  "consistent m =
     (\<forall>ps \<in> set units. distinct (map (digit m) (filter (filled m) ps)))"

text \<open>A solved Sudoku as a digit assignment \<open>g\<close>, and \<open>g\<close> agreeing with every
  filled cell of a matrix.\<close>

definition is_solution :: "(nat \<Rightarrow> nat \<Rightarrow> nat) \<Rightarrow> bool" where
  "is_solution g =
     ((\<forall>(r, c) \<in> set cells. g r c \<in> numbers) \<and>
      (\<forall>ps \<in> set units. distinct (map (\<lambda>(r, c). g r c) ps)))"

definition extends :: "val list list \<Rightarrow> (nat \<Rightarrow> nat \<Rightarrow> nat) \<Rightarrow> bool" where
  "extends m g = (\<forall>(r, c) \<in> set cells. filled m (r, c) \<longrightarrow> g r c = digit m (r, c))"

definition grid_of :: "val list list \<Rightarrow> nat \<Rightarrow> nat \<Rightarrow> nat" where
  "grid_of m r c = digit m (r, c)"

section \<open>Lemmas on values, cells and units\<close>

lemma indexOf_absent: "(indexOf xs v = -1) = (\<forall>x \<in> set xs. \<not> js_eq x v)"
proof (induction xs)
  case Nil
  then show ?case by simp
next
  case (Cons x xs)
  have "indexOf xs v \<ge> -1"
    by (induction xs) (auto simp: Let_def)
  with Cons show ?case by (auto simp: Let_def)
qed

lemma js_eq_same_key: "js_eq y v \<Longrightarrow> v \<noteq> Null \<Longrightarrow> y \<noteq> Null \<and> key y = key v"
  by (cases y; cases v) auto

lemma cellv_set2 [cell_simps]:
  "cellv (set2 m r c v) r' c' =
     (if r' = r \<and> c' = c \<and> r < length m \<and> c < length (m ! r) then v else cellv m r' c')"
  by (auto simp: cellv_def js_at_def nth_set2 nth_list_update)

lemma filled_set2 [cell_simps]:
  "filled (set2 m r c v) p =
     (if p = (r, c) \<and> r < length m \<and> c < length (m ! r) then v \<noteq> Null else filled m p)"
  by (cases p) (auto simp: filled_def cellv_set2)

lemma digit_set2 [cell_simps]:
  "digit (set2 m r c v) p =
     (if p = (r, c) \<and> r < length m \<and> c < length (m ! r) then key v else digit m p)"
  by (cases p) (auto simp: digit_def cellv_set2)

lemma wf_grid_in_range:
  "wf_grid m \<Longrightarrow> r < 9 \<Longrightarrow> c < 9 \<Longrightarrow> r < length m \<and> c < length (m ! r)"
  by (auto simp: wf_grid_def)

lemma wf_grid_cellv:
  "wf_grid m \<Longrightarrow> r < 9 \<Longrightarrow> c < 9 \<Longrightarrow> cellv m r c = m ! r ! c"
  by (auto simp: wf_grid_def cellv_def js_at_def)

lemma wf_grid_wf_val:
  assumes "wf_grid m" "r < 9" "c < 9"
  shows "wf_val (cellv m r c)"
proof -
  from assms have r: "r < length m" and "m ! r \<in> set m" and c: "c < length (m ! r)"
    by (auto simp: wf_grid_def)
  with assms(1) have "\<forall>v \<in> set (m ! r). wf_val v"
    by (auto simp: wf_grid_def)
  moreover from c have "m ! r ! c \<in> set (m ! r)"
    by (rule nth_mem)
  ultimately show ?thesis
    using r c by (simp add: cellv_def js_at_def)
qed

lemma set_cells: "set cells = {(r, c). r < 9 \<and> c < 9}"
  by (auto simp: cells_def)

lemma quadrantNumber_lt: "r < 9 \<Longrightarrow> c < 9 \<Longrightarrow> quadrantNumber r c < 9"
proof -
  assume "r < 9" "c < 9"
  then have "r div 3 \<le> 2" "c div 3 \<le> 2" by auto
  then show ?thesis by (simp add: quadrantNumber_def)
qed

lemma in_row_cells [simp]: "(p \<in> set (row_cells r)) = (fst p = r \<and> snd p < 9)"
  by (cases p) (auto simp: row_cells_def)

lemma in_col_cells [simp]: "(p \<in> set (col_cells c)) = (snd p = c \<and> fst p < 9)"
  by (cases p) (auto simp: col_cells_def)

lemma in_quad_cells [simp]:
  "(p \<in> set (quad_cells q)) = (fst p < 9 \<and> snd p < 9 \<and> quadrantNumber (fst p) (snd p) = q)"
  by (cases p) (auto simp: quad_cells_def set_cells)

lemma length_cells: "length cells = 81"
  by (simp add: cells_def length_concat comp_def sum_list_triv)

lemma distinct_cells: "distinct cells"
  by (simp add: cells_def product_concat_map [symmetric] distinct_product)

lemma distinct_units: "ps \<in> set units \<Longrightarrow> distinct ps"
  by (auto simp: units_def row_cells_def col_cells_def quad_cells_def distinct_map
      inj_on_def distinct_cells)

lemma units_cases:
  "ps \<in> set units \<Longrightarrow>
   (\<exists>i < 9. ps = row_cells i) \<or> (\<exists>i < 9. ps = col_cells i) \<or> (\<exists>i < 9. ps = quad_cells i)"
  by (auto simp: units_def)

lemma consistent_inj:
  "consistent m = (\<forall>ps \<in> set units. inj_on (digit m) {p \<in> set ps. filled m p})"
  by (simp add: consistent_def distinct_map_filter_iff distinct_units)


text \<open>A grid that keeps every filled cell of a grid with a repeated digit in a unit
  keeps the repetition, so it is not a solution.\<close>

lemma clash_not_solution:
  assumes "\<not> consistent m" "\<forall>i j. cellv m i j \<noteq> Null \<longrightarrow> cellv m' i j = cellv m i j"
  shows "\<not> is_solution (grid_of m')"
proof
  assume sol: "is_solution (grid_of m')"
  from assms(1) obtain ps where ps: "ps \<in> set units" "\<not> inj_on (digit m) {p \<in> set ps. filled m p}"
    by (auto simp: consistent_inj)
  then obtain p q where pq: "p \<in> set ps" "q \<in> set ps" "filled m p" "filled m q" "p \<noteq> q"
    "digit m p = digit m q"
    by (auto simp: inj_on_def)
  have same: "digit m' x = digit m x" if "filled m x" for x
    using that assms(2) by (cases x) (simp add: digit_def filled_def)
  have "distinct (map (\<lambda>(r, c). grid_of m' r c) ps)" using sol ps(1) by (simp add: is_solution_def)
  then have "inj_on (\<lambda>(r, c). grid_of m' r c) (set ps)" by (simp add: distinct_map)
  moreover have "(\<lambda>(r, c). grid_of m' r c) p = (\<lambda>(r, c). grid_of m' r c) q"
    using pq same by (simp add: grid_of_def case_prod_beta)
  ultimately show False using pq(1,2,5) by (auto dest: inj_onD)
qed

end
