(* ===== verification/Engine.thy ===== *)
theory Engine
  imports Board
begin

text \<open>
  The constraint engine of \<open>src/solver.js\<close>: \<open>_calcOptions\<close> (the digits a cell
  may take, as the intersection of its row, column and block sets),
  \<open>updateOptions\<close>, \<open>allocate\<close> and \<open>unallocate\<close>. The invariant \<open>inv\<close> says
  that the three families of candidate sets are exactly the digits not yet placed
  in each unit, that the allocation counter counts the filled cells, that the grid
  holds no duplicate, and that fixed cells are filled. The lemmas show that
  \<open>_calcOptions\<close> computes the legal digits of a cell (refinement of the
  recomputed specification \<open>legal\<close>), that \<open>allocate\<close> of a legal digit and
  \<open>unallocate\<close> keep the invariant, that \<open>unallocate\<close> undoes \<open>allocate\<close>,
  and that its strict-equality scans break the invariant when a digit typed as a
  string is retracted beside the same digit given as a number.
\<close>

section \<open>Operations\<close>

text \<open>\<open>_calcOptions\<close>: \<open>Set.intersection\<close> of the three candidate sets.\<close>

definition calcOptions :: "solver \<Rightarrow> nat \<Rightarrow> nat \<Rightarrow> nat set" where
  "calcOptions st r c = row st ! r \<inter> column st ! c \<inter> quadrant st ! quadrantNumber r c"

text \<open>\<open>updateOptions\<close>: the guarded \<open>Set.remove\<close> of the digit from the row,
  column and block sets (removing an absent key changes nothing).\<close>

definition updateOptions :: "nat \<Rightarrow> nat \<Rightarrow> nat \<Rightarrow> solver \<Rightarrow> solver" where
  "updateOptions n r c st =
     (let q = quadrantNumber r c in
      st\<lparr>row := (row st)[r := Set.remove n (row st ! r)],
         column := (column st)[c := Set.remove n (column st ! c)],
         quadrant := (quadrant st)[q := Set.remove n (quadrant st ! q)]\<rparr>)"

text \<open>\<open>allocate\<close>: count the call in the global \<open>cycles\<close>, write the cell, count
  the allocation, throw \<open>SolvedException\<close> when 81 cells are allocated (before the
  candidate sets are updated), otherwise update them. The thrown exception carries
  the state as mutated so far.\<close>

definition allocate :: "val \<Rightarrow> nat \<Rightarrow> nat \<Rightarrow> solver \<Rightarrow> (exn \<times> solver) + solver" where
  "allocate v r c st =
     (let st1 = st\<lparr>cycles := Suc (cycles st), matrix := set2 (matrix st) r c v,
                   allocated := allocated st + 1\<rparr>
      in if allocated st1 = 81 then Inl (SolvedException, st1)
         else Inr (updateOptions (key v) r c st1))"

text \<open>\<open>this.matrix.map(function(r){return r[column];})\<close>.\<close>

definition column_values :: "val list list \<Rightarrow> nat \<Rightarrow> val list" where
  "column_values m c = map (\<lambda>xs. js_at xs c) m"

text \<open>\<open>unallocate\<close>: clear the cell, decrement the counter, and give the digit
  back to the row, column and block sets only when \<open>indexOf\<close> (strict equality)
  finds no other occurrence of the value there.\<close>

definition unallocate :: "val \<Rightarrow> nat \<Rightarrow> nat \<Rightarrow> solver \<Rightarrow> solver" where
  "unallocate v r c st =
     (let st1 = st\<lparr>matrix := set2 (matrix st) r c Null, allocated := allocated st - 1\<rparr>;
          st2 = (if indexOf (matrix st1 ! r) v = -1
                 then st1\<lparr>row := (row st1)[r := insert (key v) (row st1 ! r)]\<rparr> else st1);
          st3 = (if indexOf (column_values (matrix st2) c) v = -1
                 then st2\<lparr>column := (column st2)[c := insert (key v) (column st2 ! c)]\<rparr>
                 else st2);
          q = quadrantNumber r c
      in if indexOf (getQuadrant st3 r c) v = -1
         then st3\<lparr>quadrant := (quadrant st3)[q := insert (key v) (quadrant st3 ! q)]\<rparr>
         else st3)"

section \<open>Specification and invariant\<close>

text \<open>The digits a cell may legally take, recomputed from the grid.\<close>

definition legal :: "val list list \<Rightarrow> nat \<Rightarrow> nat \<Rightarrow> nat set" where
  "legal m r c =
     numbers - (unit_digits m (row_cells r) \<union> unit_digits m (col_cells c) \<union>
                unit_digits m (quad_cells (quadrantNumber r c)))"

definition opts_ok :: "solver \<Rightarrow> bool" where
  "opts_ok st =
     (length (row st) = 9 \<and> length (column st) = 9 \<and> length (quadrant st) = 9 \<and>
      (\<forall>i \<in> set [0..<9].
         row st ! i = numbers - unit_digits (matrix st) (row_cells i) \<and>
         column st ! i = numbers - unit_digits (matrix st) (col_cells i) \<and>
         quadrant st ! i = numbers - unit_digits (matrix st) (quad_cells i)))"

definition count_ok :: "solver \<Rightarrow> bool" where
  "count_ok st = (allocated st = int (length (filter (filled (matrix st)) cells)))"

definition fixed_ok :: "solver \<Rightarrow> bool" where
  "fixed_ok st = (\<forall>p \<in> fixed st. filled (matrix st) p)"

definition inv :: "solver \<Rightarrow> bool" where
  "inv st =
     (wf_grid (matrix st) \<and> consistent (matrix st) \<and> opts_ok st \<and> count_ok st \<and> fixed_ok st)"

declare opts_ok_def [inv_defs] count_ok_def [inv_defs] fixed_ok_def [inv_defs] inv_def [inv_defs]

section \<open>Grid lemmas: filling an empty cell, clearing a filled one\<close>

lemma unit_digits_fill:
  assumes "wf_grid m" "r < 9" "c < 9" "\<not> filled m (r, c)" "v \<noteq> Null"
  shows "unit_digits (set2 m r c v) ps =
           (if (r, c) \<in> set ps then insert (key v) (unit_digits m ps) else unit_digits m ps)"
  using assms wf_grid_in_range [OF assms(1-3)]
  by (auto simp: unit_digits_def cell_simps image_iff)

lemma unit_digits_clear:
  assumes "wf_grid m" "r < 9" "c < 9" "filled m (r, c)"
    and inj: "inj_on (digit m) {p \<in> set ps. filled m p}"
  shows "unit_digits (set2 m r c Null) ps =
           (if (r, c) \<in> set ps then unit_digits m ps - {digit m (r, c)} else unit_digits m ps)"
proof -
  note rng = wf_grid_in_range [OF assms(1-3)]
  let ?S = "{p \<in> set ps. filled m p}"
  have S': "{p \<in> set ps. filled (set2 m r c Null) p} = ?S - {(r, c)}"
    using rng by (auto simp: cell_simps)
  have d': "digit (set2 m r c Null) ` (?S - {(r, c)}) = digit m ` (?S - {(r, c)})"
    using rng by (auto simp: cell_simps image_iff)
  show ?thesis
  proof (cases "(r, c) \<in> set ps")
    case True
    with assms(4) have "digit m ` (?S - {(r, c)}) = digit m ` ?S - digit m ` {(r, c)}"
      by (intro inj_on_image_set_diff [OF inj]) auto
    with True S' d' show ?thesis by (simp add: unit_digits_def)
  next
    case False
    with S' d' show ?thesis by (simp add: unit_digits_def)
  qed
qed

lemma wf_grid_set2:
  assumes "wf_grid m" "r < 9" "c < 9" "wf_val v"
  shows "wf_grid (set2 m r c v)"
proof -
  have "\<forall>xs \<in> set (set2 m r c v). length xs = 9 \<and> (\<forall>w \<in> set xs. wf_val w)"
  proof
    fix xs assume "xs \<in> set (set2 m r c v)"
    then obtain i where i: "i < 9" "xs = set2 m r c v ! i"
      using assms(1) by (auto simp: wf_grid_def in_set_conv_nth)
    then have mi: "m ! i \<in> set m" using assms(1) by (simp add: wf_grid_def)
    show "length xs = 9 \<and> (\<forall>w \<in> set xs. wf_val w)"
    proof (cases "i = r")
      case True
      have "set xs \<subseteq> insert v (set (m ! r))"
        using i True assms(1) by (simp add: nth_set2 wf_grid_def set_update_subset_insert)
      moreover have "\<forall>w \<in> set (m ! r). wf_val w"
        using mi True assms(1) by (simp add: wf_grid_def)
      ultimately have "\<forall>w \<in> set xs. wf_val w"
        using assms(4) by blast
      moreover have "length xs = 9"
        using i True mi assms(1) by (simp add: wf_grid_def nth_set2)
      ultimately show ?thesis by simp
    next
      case False
      then show ?thesis using i mi assms(1) by (auto simp: wf_grid_def nth_set2)
    qed
  qed
  then show ?thesis using assms(1) by (simp add: wf_grid_def)
qed

lemma consistent_unique:
  assumes "consistent m" "ps \<in> set units" "p \<in> set ps" "q \<in> set ps"
    "filled m p" "filled m q" "digit m p = digit m q"
  shows "p = q"
  using assms by (auto simp: consistent_inj dest: inj_onD)

lemma unit_cells_in_units:
  "i < 9 \<Longrightarrow> row_cells i \<in> set units"
  "i < 9 \<Longrightarrow> col_cells i \<in> set units"
  "i < 9 \<Longrightarrow> quad_cells i \<in> set units"
  by (auto simp: units_def)

lemma legal_not_in_unit:
  assumes "ps \<in> set units" "(r, c) \<in> set ps" "d \<in> legal m r c"
  shows "d \<notin> unit_digits m ps"
proof -
  from units_cases [OF assms(1)]
  consider (R) i where "ps = row_cells i" | (C) i where "ps = col_cells i"
    | (Q) i where "ps = quad_cells i"
    by blast
  then show ?thesis
  proof cases
    case R
    with assms(2) have "ps = row_cells r" by simp
    with assms(3) show ?thesis by (simp add: legal_def)
  next
    case C
    with assms(2) have "ps = col_cells c" by simp
    with assms(3) show ?thesis by (simp add: legal_def)
  next
    case Q
    with assms(2) have "ps = quad_cells (quadrantNumber r c)" by simp
    with assms(3) show ?thesis by (simp add: legal_def)
  qed
qed

lemma consistent_fill:
  assumes "wf_grid m" "consistent m" "r < 9" "c < 9" "\<not> filled m (r, c)" "v \<noteq> Null"
    "key v \<in> legal m r c"
  shows "consistent (set2 m r c v)"
  unfolding consistent_inj
proof
  fix ps assume ps: "ps \<in> set units"
  note rng = wf_grid_in_range [OF assms(1,3,4)]
  let ?m' = "set2 m r c v"
  let ?S = "{p \<in> set ps. filled m p}"
  have inj: "inj_on (digit m) ?S" using assms(2) ps by (simp add: consistent_inj)
  have eq: "\<And>p. p \<in> ?S \<Longrightarrow> digit ?m' p = digit m p"
    using rng assms(5) by (auto simp: cell_simps)
  then have inj': "inj_on (digit ?m') ?S"
    using inj inj_on_cong [of ?S "digit ?m'" "digit m"] by blast
  have img: "digit ?m' ` ?S = unit_digits m ps"
    using eq by (simp add: unit_digits_def)
  show "inj_on (digit ?m') {p \<in> set ps. filled ?m' p}"
  proof (cases "(r, c) \<in> set ps")
    case True
    then have S': "{p \<in> set ps. filled ?m' p} = insert (r, c) ?S"
      using rng assms(5,6) by (auto simp: cell_simps)
    have "key v \<notin> unit_digits m ps"
      using legal_not_in_unit [OF ps True assms(7)] .
    then show ?thesis
      using S' inj' img assms(5) rng by (simp add: inj_on_insert_new cell_simps)
  next
    case False
    then have "{p \<in> set ps. filled ?m' p} = ?S"
      using rng by (auto simp: cell_simps)
    with inj' show ?thesis by simp
  qed
qed

lemma length_filter_cells: "length (filter P cells) = card {p \<in> set cells. P p}"
  using distinct_length_filter [OF distinct_cells] by (simp add: Collect_conj_eq Int_commute)

lemma count_fill:
  assumes "wf_grid m" "r < 9" "c < 9" "\<not> filled m (r, c)" "v \<noteq> Null"
  shows "length (filter (filled (set2 m r c v)) cells) = Suc (length (filter (filled m) cells))"
proof -
  note rng = wf_grid_in_range [OF assms(1-3)]
  have "{p \<in> set cells. filled (set2 m r c v) p} = insert (r, c) {p \<in> set cells. filled m p}"
    using rng assms by (auto simp: cell_simps set_cells)
  then show ?thesis
    using assms(4) by (simp add: length_filter_cells)
qed

lemma count_clear:
  assumes "wf_grid m" "r < 9" "c < 9" "filled m (r, c)"
  shows "Suc (length (filter (filled (set2 m r c Null)) cells)) = length (filter (filled m) cells)"
proof -
  note rng = wf_grid_in_range [OF assms(1-3)]
  have "{p \<in> set cells. filled m p} = insert (r, c) {p \<in> set cells. filled (set2 m r c Null) p}"
    using rng assms by (auto simp: cell_simps set_cells)
  then show ?thesis
    using rng by (simp add: length_filter_cells cell_simps)
qed

lemma consistent_clear:
  assumes wf: "wf_grid m" and rc: "r < 9" "c < 9" and cons: "consistent m"
  shows "consistent (set2 m r c Null)"
  unfolding consistent_inj
proof
  fix ps assume ps: "ps \<in> set units"
  note rng = wf_grid_in_range [OF wf rc]
  let ?m' = "set2 m r c Null"
  let ?S' = "{p \<in> set ps. filled ?m' p}"
  have "?S' \<subseteq> {p \<in> set ps. filled m p}"
    using rng by (auto simp: cell_simps)
  moreover have "inj_on (digit m) {p \<in> set ps. filled m p}"
    using cons ps by (simp add: consistent_inj)
  ultimately have "inj_on (digit m) ?S'"
    by (rule inj_on_subset [rotated])
  moreover have "\<And>p. p \<in> ?S' \<Longrightarrow> digit ?m' p = digit m p"
    using rng by (auto simp: cell_simps)
  ultimately show "inj_on (digit ?m') ?S'"
    using inj_on_cong [of ?S' "digit ?m'" "digit m"] by blast
qed

section \<open>Operation lemmas\<close>

lemma updateOptions_frame [simp]:
  "matrix (updateOptions n r c st) = matrix st"
  "allocated (updateOptions n r c st) = allocated st"
  "fixed (updateOptions n r c st) = fixed st"
  "cycles (updateOptions n r c st) = cycles st"
  "solution (updateOptions n r c st) = solution st"
  by (simp_all add: updateOptions_def Let_def)

lemma allocate_Inr:
  "(allocate v r c st = Inr st') =
   (allocated st + 1 \<noteq> 81 \<and>
    st' = updateOptions (key v) r c
            (st\<lparr>cycles := Suc (cycles st), matrix := set2 (matrix st) r c v,
                allocated := allocated st + 1\<rparr>))"
  by (auto simp: allocate_def Let_def)

lemma allocate_Inl:
  "(allocate v r c st = Inl (e, st')) =
   (allocated st + 1 = 81 \<and>
    st' = st\<lparr>cycles := Suc (cycles st), matrix := set2 (matrix st) r c v,
              allocated := allocated st + 1\<rparr>)"
  by (cases e) (auto simp: allocate_def Let_def)

lemma calcOptions_legal:
  assumes "inv st" "r < 9" "c < 9"
  shows "calcOptions st r c = legal (matrix st) r c"
  using assms quadrantNumber_lt [OF assms(2,3)]
  by (auto simp: calcOptions_def legal_def inv_def opts_ok_def)

lemma legal_numbers: "d \<in> legal m r c \<Longrightarrow> d \<in> numbers"
  by (simp add: legal_def)

lemma wf_val_of_key: "v \<noteq> Null \<Longrightarrow> key v \<in> numbers \<Longrightarrow> wf_val v"
  by (cases v) (auto simp: numbers_def)

lemma remove_diff: "A - B - {d} = A - insert d B"
  by auto

lemma opts_ok_fill:
  assumes "opts_ok st" "wf_grid (matrix st)" "r < 9" "c < 9" "\<not> filled (matrix st) (r, c)"
    "v \<noteq> Null"
    and st1: "matrix st1 = set2 (matrix st) r c v" "row st1 = row st"
      "column st1 = column st" "quadrant st1 = quadrant st"
  shows "opts_ok (updateOptions (key v) r c st1)"
proof -
  let ?m = "matrix st"
  have q: "quadrantNumber r c < 9" using assms(3,4) by (rule quadrantNumber_lt)
  note U = unit_digits_fill [OF assms(2-6)]
  have len: "length (row st) = 9" "length (column st) = 9" "length (quadrant st) = 9"
    using assms(1) by (simp_all add: opts_ok_def)
  have old: "row st ! i = numbers - unit_digits ?m (row_cells i)"
    "column st ! i = numbers - unit_digits ?m (col_cells i)"
    "quadrant st ! i = numbers - unit_digits ?m (quad_cells i)" if "i < 9" for i
    using assms(1) that by (simp_all add: opts_ok_def)
  have R: "(row st)[r := Set.remove (key v) (row st ! r)] ! i =
             numbers - unit_digits (set2 ?m r c v) (row_cells i)" if "i < 9" for i
    using that assms(3,4) len old [OF that] old [OF assms(3)]
    by (cases "i = r") (simp_all add: U remove_diff)
  have C: "(column st)[c := Set.remove (key v) (column st ! c)] ! i =
             numbers - unit_digits (set2 ?m r c v) (col_cells i)" if "i < 9" for i
    using that assms(3,4) len old [OF that] old [OF assms(4)]
    by (cases "i = c") (simp_all add: U remove_diff)
  have Q: "(quadrant st)[quadrantNumber r c := Set.remove (key v) (quadrant st ! quadrantNumber r c)] ! i =
             numbers - unit_digits (set2 ?m r c v) (quad_cells i)" if "i < 9" for i
    using that assms(3,4) len old [OF that] old [OF q]
    by (cases "i = quadrantNumber r c") (simp_all add: U remove_diff)
  show ?thesis
    using len R C Q unfolding opts_ok_def updateOptions_def Let_def
    by (simp add: st1)
qed

lemma allocate_inv:
  assumes "inv st" "r < 9" "c < 9" "\<not> filled (matrix st) (r, c)" "v \<noteq> Null"
    "key v \<in> calcOptions st r c" "allocate v r c st = Inr st'"
  shows "inv st'"
proof -
  let ?m = "matrix st"
  have wf: "wf_grid ?m" and cons: "consistent ?m" and opts: "opts_ok st"
    and cnt: "count_ok st" and fx: "fixed_ok st"
    using assms(1) by (simp_all add: inv_def)
  have leg: "key v \<in> legal ?m r c"
    using assms(6) calcOptions_legal [OF assms(1-3)] by simp
  from assms(7) have ne: "allocated st + 1 \<noteq> 81"
    and st': "st' = updateOptions (key v) r c
            (st\<lparr>cycles := Suc (cycles st), matrix := set2 ?m r c v, allocated := allocated st + 1\<rparr>)"
    by (simp_all add: allocate_Inr)
  have "wf_grid (matrix st')"
    using st' wf_grid_set2 [OF wf assms(2,3) wf_val_of_key [OF assms(5) legal_numbers [OF leg]]]
    by simp
  moreover have "consistent (matrix st')"
    using st' consistent_fill [OF wf cons assms(2-5) leg] by simp
  moreover have "opts_ok st'"
    unfolding st' by (rule opts_ok_fill [OF opts wf assms(2-5)]) simp_all
  moreover have "count_ok st'"
    using st' cnt count_fill [OF wf assms(2-5)] by (simp add: count_ok_def)
  moreover have "fixed_ok st'"
    using st' fx wf_grid_in_range [OF wf assms(2,3)] assms(5)
    by (auto simp: fixed_ok_def cell_simps)
  ultimately show ?thesis by (simp add: inv_def)
qed

lemma no_twin:
  assumes "inv st" "ps \<in> set units" "(r, c) \<in> set ps" "cellv (matrix st) r c = v" "v \<noteq> Null"
    "p \<in> set ps" "p \<noteq> (r, c)"
  shows "\<not> js_eq (cellv (matrix st) (fst p) (snd p)) v"
proof
  assume "js_eq (cellv (matrix st) (fst p) (snd p)) v"
  then have "filled (matrix st) p" "digit (matrix st) p = key v"
    using js_eq_same_key assms(5) by (auto simp: filled_def digit_def)
  moreover have "filled (matrix st) (r, c)" "digit (matrix st) (r, c) = key v"
    using assms(4,5) by (simp_all add: filled_def digit_def)
  moreover have "consistent (matrix st)"
    using assms(1) by (simp add: inv_def)
  ultimately have "p = (r, c)"
    using consistent_unique [OF _ assms(2) assms(6) assms(3)] by metis
  with assms(7) show False by simp
qed

text \<open>Every value in the lists \<open>unallocate\<close> scans is a cell of the unit.\<close>

lemma row_values:
  assumes "wf_grid m" "r < 9" "y \<in> set (m ! r)"
  shows "\<exists>p \<in> set (row_cells r). y = cellv m (fst p) (snd p)"
proof -
  obtain i where i: "i < length (m ! r)" "y = m ! r ! i"
    using assms(3) by (auto simp: in_set_conv_nth)
  then have "i < 9" using assms(1,2) by (simp add: wf_grid_def)
  with i assms(1,2) show ?thesis
    by (intro bexI [of _ "(r, i)"]) (simp_all add: wf_grid_cellv)
qed

lemma column_values_cells:
  assumes "wf_grid m" "y \<in> set (column_values m c)"
  shows "\<exists>p \<in> set (col_cells c). y = cellv m (fst p) (snd p)"
proof -
  obtain i where i: "i < 9" "y = js_at (m ! i) c"
    using assms by (auto simp: column_values_def in_set_conv_nth wf_grid_def)
  with assms(1) show ?thesis
    by (intro bexI [of _ "(i, c)"]) (simp_all add: cellv_def wf_grid_def)
qed

lemma getQuadrant_cells:
  assumes "y \<in> set (getQuadrant st r c)"
  shows "\<exists>p \<in> set (quad_cells (quadrantNumber r c)). y = cellv (matrix st) (fst p) (snd p)"
proof -
  obtain a b where "y = cellv (matrix st) a b" "quadrantNumber r c = quadrantNumber a b"
    "a < 9" "b < 9"
    using assms by (auto simp: getQuadrant_def set_cells)
  then show ?thesis by (intro bexI [of _ "(a, b)"]) simp_all
qed

lemma cleared_unit_no_match:
  assumes "inv st" "r < 9" "c < 9" "cellv (matrix st) r c = v" "v \<noteq> Null"
    "ps \<in> set units" "(r, c) \<in> set ps" "p \<in> set ps"
  shows "\<not> js_eq (cellv (set2 (matrix st) r c Null) (fst p) (snd p)) v"
proof -
  have wf: "wf_grid (matrix st)" using assms(1) by (simp add: inv_def)
  note rng = wf_grid_in_range [OF wf assms(2,3)]
  show ?thesis
  proof (cases "p = (r, c)")
    case True
    with rng assms(5) show ?thesis by (cases v) (simp_all add: cell_simps)
  next
    case False
    with rng no_twin [OF assms(1,6,7,4,5,8)] show ?thesis
      by (cases p) (auto simp: cell_simps)
  qed
qed

lemma unallocate_scans_absent:
  assumes "inv st" "r < 9" "c < 9" "cellv (matrix st) r c = v" "v \<noteq> Null"
  shows "indexOf (set2 (matrix st) r c Null ! r) v = -1"
    and "indexOf (column_values (set2 (matrix st) r c Null) c) v = -1"
    and "matrix st' = set2 (matrix st) r c Null \<Longrightarrow> indexOf (getQuadrant st' r c) v = -1"
proof -
  let ?m' = "set2 (matrix st) r c Null"
  have wf': "wf_grid ?m'"
    using assms(1-3) by (simp add: inv_def wf_grid_set2)
  note nm = cleared_unit_no_match [OF assms(1-5) unit_cells_in_units(1) [OF assms(2)]]
    cleared_unit_no_match [OF assms(1-5) unit_cells_in_units(2) [OF assms(3)]]
    cleared_unit_no_match [OF assms(1-5) unit_cells_in_units(3) [OF quadrantNumber_lt [OF assms(2,3)]]]
  show "indexOf (?m' ! r) v = -1"
    using row_values [OF wf' assms(2)] nm(1) assms(3) by (fastforce simp: indexOf_absent)
  show "indexOf (column_values ?m' c) v = -1"
    using column_values_cells [OF wf'] nm(2) assms(2) by (fastforce simp: indexOf_absent)
  show "indexOf (getQuadrant st' r c) v = -1" if "matrix st' = ?m'"
    using getQuadrant_cells [of _ st' r c] nm(3) assms(2,3) that
    by (fastforce simp: indexOf_absent)
qed

lemma unallocate_eq:
  assumes "inv st" "r < 9" "c < 9" "cellv (matrix st) r c = v" "v \<noteq> Null"
  shows "unallocate v r c st =
    st\<lparr>matrix := set2 (matrix st) r c Null, allocated := allocated st - 1,
       row := (row st)[r := insert (key v) (row st ! r)],
       column := (column st)[c := insert (key v) (column st ! c)],
       quadrant := (quadrant st)[quadrantNumber r c :=
                      insert (key v) (quadrant st ! quadrantNumber r c)]\<rparr>"
  using unallocate_scans_absent [OF assms]
  by (simp add: unallocate_def Let_def)

lemma set2_set2_in_range:
  "r < length m \<Longrightarrow> set2 (set2 m r c v) r c w = set2 m r c w"
  by (simp add: set2_def)

lemma allocate_unallocate:
  assumes "inv st" "r < 9" "c < 9" "\<not> filled (matrix st) (r, c)" "v \<noteq> Null"
    "key v \<in> calcOptions st r c" "allocate v r c st = Inr st'"
  shows "unallocate v r c st' = st\<lparr>cycles := Suc (cycles st)\<rparr>"
proof -
  let ?m = "matrix st" and ?q = "quadrantNumber r c"
  have wf: "wf_grid ?m" using assms(1) by (simp add: inv_def)
  note rng = wf_grid_in_range [OF wf assms(2,3)]
  have inv': "inv st'" by (rule allocate_inv [OF assms])
  from assms(7) have st': "st' = updateOptions (key v) r c
      (st\<lparr>cycles := Suc (cycles st), matrix := set2 ?m r c v, allocated := allocated st + 1\<rparr>)"
    by (simp add: allocate_Inr)
  have cell': "cellv (matrix st') r c = v"
    using st' rng by (simp add: cell_simps)
  have empty: "?m ! r ! c = Null"
    using assms(4) wf_grid_cellv [OF wf assms(2,3)] by (simp add: filled_def)
  have restored: "set2 (set2 ?m r c v) r c Null = ?m"
    using rng empty set2_nth_id [of r "matrix st" c] by (simp add: set2_set2_in_range)
  have mem: "key v \<in> row st ! r" "key v \<in> column st ! c" "key v \<in> quadrant st ! ?q"
    using assms(6) by (simp_all add: calcOptions_def)
  have len: "r < length (row st)" "c < length (column st)" "?q < length (quadrant st)"
    using assms(1-3) quadrantNumber_lt [OF assms(2,3)] by (simp_all add: inv_def opts_ok_def)
  show ?thesis
    unfolding unallocate_eq [OF inv' assms(2,3) cell' assms(5)]
    using mem len restored by (simp add: st' updateOptions_def Let_def insert_absorb)
qed

section \<open>Properties of the constraint engine\<close>

text \<open>C5. Round trip: in a consistent state, allocating a candidate digit into an
  empty cell and then retracting it restores the whole state (matrix, counter and
  the three candidate families); only the global call counter \<open>cycles\<close> moved.\<close>

theorem allocate_unallocate_roundtrip:
  assumes "inv st" "r < 9" "c < 9" "cellv (matrix st) r c = Null"
    "d \<in> calcOptions st r c" "allocate (Key d) r c st = Inr st'"
  shows "unallocate (Key d) r c st' = st\<lparr>cycles := Suc (cycles st)\<rparr>"
  using allocate_unallocate [OF assms(1-3) _ _ _ assms(6)] assms(4,5) by (simp add: filled_def)

text \<open>C6. Refinement: in a consistent state the incrementally maintained
  intersection \<open>_calcOptions\<close> is exactly the set of digits 1..9 that no filled
  cell of the same row, column or block holds.\<close>

theorem calcOptions_exact:
  assumes "inv st" "r < 9" "c < 9"
  shows "(d \<in> calcOptions st r c) =
           (d \<in> numbers \<and>
            (\<forall>p \<in> set cells. filled (matrix st) p \<and>
               (fst p = r \<or> snd p = c \<or> quadrantNumber (fst p) (snd p) = quadrantNumber r c) \<longrightarrow>
               digit (matrix st) p \<noteq> d))"
proof -
  let ?m = "matrix st" and ?q = "quadrantNumber r c"
  let ?P = "\<lambda>p. filled ?m p \<and> (fst p = r \<or> snd p = c \<or> quadrantNumber (fst p) (snd p) = ?q)"
  have "(d \<in> unit_digits ?m (row_cells r) \<union> unit_digits ?m (col_cells c) \<union> unit_digits ?m (quad_cells ?q))
        = (\<exists>p \<in> set cells. ?P p \<and> digit ?m p = d)"
  proof
    assume "d \<in> unit_digits ?m (row_cells r) \<union> unit_digits ?m (col_cells c) \<union> unit_digits ?m (quad_cells ?q)"
    then obtain p where "p \<in> set (row_cells r) \<or> p \<in> set (col_cells c) \<or> p \<in> set (quad_cells ?q)"
      "filled ?m p" "digit ?m p = d"
      by (auto simp: unit_digits_def)
    then show "\<exists>p \<in> set cells. ?P p \<and> digit ?m p = d"
      using assms(2,3) by (intro bexI [of _ p]) (auto simp: set_cells mem_Times_iff)
  next
    assume "\<exists>p \<in> set cells. ?P p \<and> digit ?m p = d"
    then obtain p where p: "p \<in> set cells" "?P p" "digit ?m p = d" by blast
    then have "p \<in> set (row_cells r) \<or> p \<in> set (col_cells c) \<or> p \<in> set (quad_cells ?q)"
      by (auto simp: set_cells)
    with p show "d \<in> unit_digits ?m (row_cells r) \<union> unit_digits ?m (col_cells c) \<union> unit_digits ?m (quad_cells ?q)"
      by (auto simp: unit_digits_def)
  qed
  then show ?thesis
    by (auto simp: calcOptions_legal [OF assms] legal_def)
qed

text \<open>C7. \<open>allocate\<close> of a candidate digit into an empty cell keeps the invariant:
  candidate sets equal the digits missing from each unit, the counter equals the
  number of filled cells, no duplicate is created; it writes the cell and counts it.\<close>

theorem allocate_preserves_inv:
  assumes "inv st" "r < 9" "c < 9" "cellv (matrix st) r c = Null"
    "d \<in> calcOptions st r c" "allocate (Key d) r c st = Inr st'"
  shows "inv st' \<and> cellv (matrix st') r c = Key d \<and> allocated st' = allocated st + 1"
proof -
  have "inv st'" using allocate_inv [OF assms(1-3) _ _ _ assms(6)] assms(4,5) by (simp add: filled_def)
  moreover have "cellv (matrix st') r c = Key d" "allocated st' = allocated st + 1"
    using assms(6) wf_grid_in_range [of "matrix st" r c] assms(1-3)
    by (auto simp: allocate_Inr inv_def cell_simps)
  ultimately show ?thesis by simp
qed

text \<open>C8. \<open>unallocate\<close> of the value of a filled, non-fixed cell keeps the
  invariant: the scan-based conditional restore gives the digit back to exactly the
  units that no longer hold it.\<close>

theorem unallocate_inv:
  assumes "inv st" "r < 9" "c < 9" "cellv (matrix st) r c = v" "v \<noteq> Null"
    "(r, c) \<notin> fixed st"
  shows "inv (unallocate v r c st)"
proof -
  let ?m = "matrix st" and ?m' = "set2 (matrix st) r c Null" and ?q = "quadrantNumber r c"
  have wf: "wf_grid ?m" and cons: "consistent ?m" and opts: "opts_ok st"
    and cnt: "count_ok st" and fx: "fixed_ok st"
    using assms(1) by (simp_all add: inv_def)
  note rng = wf_grid_in_range [OF wf assms(2,3)]
  have fl: "filled ?m (r, c)" using assms(4,5) by (simp add: filled_def)
  have dg: "digit ?m (r, c) = key v" using assms(4) by (simp add: digit_def)
  have kv: "key v \<in> numbers"
    using wf_grid_wf_val [OF wf assms(2,3)] assms(4,5) by (cases v) (auto simp: numbers_def)
  have U: "unit_digits ?m' ps =
      (if (r, c) \<in> set ps then unit_digits ?m ps - {key v} else unit_digits ?m ps)"
    if "ps \<in> set units" for ps
    using unit_digits_clear [OF wf assms(2,3) fl] cons that dg by (simp add: consistent_inj)
  have wf': "wf_grid ?m'" using wf assms(2,3) by (simp add: wf_grid_set2)
  have cons': "consistent ?m'" by (rule consistent_clear [OF wf assms(2,3) cons])
  have len: "length (row st) = 9" "length (column st) = 9" "length (quadrant st) = 9"
    using opts by (simp_all add: opts_ok_def)
  have old: "row st ! i = numbers - unit_digits ?m (row_cells i)"
    "column st ! i = numbers - unit_digits ?m (col_cells i)"
    "quadrant st ! i = numbers - unit_digits ?m (quad_cells i)" if "i < 9" for i
    using opts that by (simp_all add: opts_ok_def)
  have q: "?q < 9" by (rule quadrantNumber_lt [OF assms(2,3)])
  have ins: "insert (key v) (numbers - A) = numbers - (A - {key v})" for A
    using kv by auto
  have opts': "opts_ok (unallocate v r c st)"
    unfolding unallocate_eq [OF assms(1-5)] opts_ok_def
    using len old q assms(2,3) unit_cells_in_units
    by (auto simp: U nth_list_update ins)
  have cnt': "count_ok (unallocate v r c st)"
    using cnt count_clear [OF wf assms(2,3) fl]
    by (simp add: unallocate_eq [OF assms(1-5)] count_ok_def)
  have fx': "fixed_ok (unallocate v r c st)"
    using fx assms(6) rng by (auto simp: unallocate_eq [OF assms(1-5)] fixed_ok_def cell_simps)
  show ?thesis
    using wf' cons' opts' cnt' fx' by (simp add: inv_def unallocate_eq [OF assms(1-5)])
qed


text \<open>C12. Strict equality in \<open>unallocate\<close>: a digit typed into a cell arrives as a
  string (\<open>Key d\<close>), a given as a number (\<open>Num d\<close>). Retracting the string from
  cell \<open>(r, c)\<close> when another cell of row \<open>r\<close> holds the same digit as a number,
  and no other cell of the row holds it as a string, makes \<open>indexOf\<close> miss the
  number and gives \<open>d\<close> back to the row's candidate set: the row still contains
  \<open>d\<close>, the set offers it again, and the invariant is broken.\<close>

theorem retract_type_confusion:
  assumes "wf_grid (matrix st)" "length (row st) = 9" "r < 9" "c < 9" "c' \<noteq> c"
    "cellv (matrix st) r c' = Num d" "\<forall>j < 9. j \<noteq> c \<longrightarrow> cellv (matrix st) r j \<noteq> Key d"
  shows "d \<in> row (unallocate (Key d) r c st) ! r \<and>
         cellv (matrix (unallocate (Key d) r c st)) r c' = Num d \<and> \<not> inv (unallocate (Key d) r c st)"
proof -
  let ?m = "matrix st" and ?m' = "set2 (matrix st) r c Null" and ?st' = "unallocate (Key d) r c st"
  have wf': "wf_grid ?m'" using assms(1,3,4) by (simp add: wf_grid_set2)
  have c': "c' < 9" using assms(1,3,6) by (auto simp: wf_grid_def cellv_def js_at_def split: if_splits)
  have "\<not> js_eq y (Key d)" if y: "y \<in> set (?m' ! r)" for y
  proof -
    obtain p where p: "p \<in> set (row_cells r)" "y = cellv ?m' (fst p) (snd p)"
      using row_values [OF wf' assms(3) y] by blast
    then have j: "snd p < 9" "y = cellv ?m' r (snd p)" by auto
    have "y \<noteq> Key d"
      using j assms(7) wf_grid_in_range [OF assms(1,3,4)] by (auto simp: cellv_set2)
    then show ?thesis by (cases y) auto
  qed
  then have abs: "indexOf (?m' ! r) (Key d) = -1" by (simp add: indexOf_absent)
  have row': "row ?st' ! r = insert d (row st ! r)"
    using abs assms(2,3) by (simp add: unallocate_def Let_def)
  have cell': "cellv (matrix ?st') r c' = Num d" using assms(5,6) by (simp add: unallocate_def Let_def cellv_set2)
  have "d = digit (matrix ?st') (r, c')" using cell' by (simp add: digit_def)
  moreover have "(r, c') \<in> {p \<in> set (row_cells r). filled (matrix ?st') p}"
    using cell' c' by (simp add: filled_def)
  ultimately have "d \<in> unit_digits (matrix ?st') (row_cells r)"
    unfolding unit_digits_def by blast
  then have "row ?st' ! r \<noteq> numbers - unit_digits (matrix ?st') (row_cells r)" using row' by auto
  then have "\<not> opts_ok ?st'" using assms(3) unfolding opts_ok_def by force
  then show ?thesis using row' cell' by (simp add: inv_def)
qed

end
