(* ===== verification/Heuristic.thy ===== *)
theory Heuristic
  imports Engine
begin

text \<open>
  The cell-selection heuristic \<open>determineNextCell\<close> of \<open>src/solver.js\<close>. The source
  scans the matrix row by row with two nested \<open>for ... in\<close> loops; \<open>countOptions\<close>
  is a function-scoped \<open>var\<close>, so the test after the inner loop sees the count
  of the last empty cell examined in any row so far, and \<open>min\<close> is never lowered
  from 10. The model keeps both: \<open>scan_cols\<close> is the inner loop, \<open>scan_rows\<close>
  the outer one, each threading \<open>best\<close> and \<open>countOptions\<close>. The lemmas show
  what the loop really computes (\<open>next_cell_spec\<close>): the first empty, non-fixed
  cell with exactly one candidate if there is one, and otherwise the last empty,
  non-fixed cell with at least one candidate, in row-major order.
\<close>

section \<open>The scan\<close>

text \<open>The inner loop over the columns \<open>cs\<close> of row \<open>r\<close>, with \<open>best\<close> and
  \<open>countOptions\<close> (\<open>None\<close> while \<open>undefined\<close>). \<open>k < 10\<close> is
  \<open>countOptions < min\<close> with \<open>min\<close> still 10.\<close>

fun scan_cols :: "solver \<Rightarrow> nat \<Rightarrow> nat list \<Rightarrow> coord option \<Rightarrow> nat option \<Rightarrow>
    coord option \<times> nat option" where
  "scan_cols st r [] best cnt = (best, cnt)"
| "scan_cols st r (c # cs) best cnt =
     (if \<not> isFixed st r c \<and> cellv (matrix st) r c = Null then
        (let k = card (calcOptions st r c);
             best' = (if k < 10 \<and> 0 < k then Some (r, c) else best)
         in if k = 1 then (best', Some k) else scan_cols st r cs best' (Some k))
      else scan_cols st r cs best cnt)"

text \<open>The outer loop over the rows \<open>rs\<close>: after each row, break when the
  function-scoped \<open>countOptions\<close> is 1.\<close>

fun scan_rows :: "solver \<Rightarrow> nat list \<Rightarrow> coord option \<Rightarrow> nat option \<Rightarrow>
    coord option \<times> nat option" where
  "scan_rows st [] best cnt = (best, cnt)"
| "scan_rows st (r # rs) best cnt =
     (case scan_cols st r [0..<length (matrix st ! r)] best cnt of
        (best', cnt') \<Rightarrow> if cnt' = Some 1 then (best', cnt') else scan_rows st rs best' cnt')"

text \<open>\<open>determineNextCell\<close>: \<open>best\<close> starts as \<open>{}\<close> (no cell).\<close>

definition determineNextCell :: "solver \<Rightarrow> coord option" where
  "determineNextCell st = fst (scan_rows st [0..<length (matrix st)] None None)"

section \<open>What the scan computes\<close>

text \<open>The cells the loops visit, in order.\<close>

definition row_order :: "solver \<Rightarrow> nat list \<Rightarrow> coord list" where
  "row_order st rs = concat (map (\<lambda>r. map (Pair r) [0..<length (matrix st ! r)]) rs)"

definition scan_order :: "solver \<Rightarrow> coord list" where
  "scan_order st = row_order st [0..<length (matrix st)]"

text \<open>A cell the heuristic may choose, and one that stops the scan.\<close>

definition selectable :: "solver \<Rightarrow> coord \<Rightarrow> bool" where
  "selectable st p =
     (\<not> isFixed st (fst p) (snd p) \<and> cellv (matrix st) (fst p) (snd p) = Null \<and>
      0 < card (calcOptions st (fst p) (snd p)) \<and> card (calcOptions st (fst p) (snd p)) < 10)"

definition single :: "solver \<Rightarrow> coord \<Rightarrow> bool" where
  "single st p =
     (\<not> isFixed st (fst p) (snd p) \<and> cellv (matrix st) (fst p) (snd p) = Null \<and>
      card (calcOptions st (fst p) (snd p)) = 1)"

definition pick :: "(coord \<Rightarrow> bool) \<Rightarrow> (coord \<Rightarrow> bool) \<Rightarrow> coord list \<Rightarrow> coord option \<Rightarrow> coord option" where
  "pick hit sel ps best =
     (case find hit ps of
        Some p \<Rightarrow> Some p
      | None \<Rightarrow> (if filter sel ps = [] then best else Some (last (filter sel ps))))"

definition next_cell_spec :: "solver \<Rightarrow> coord option" where
  "next_cell_spec st = pick (single st) (selectable st) (scan_order st) None"

section \<open>Lemmas\<close>

lemma single_selectable: "single st p \<Longrightarrow> selectable st p"
  by (simp add: single_def selectable_def)

lemma scan_cols_hit:
  "find (single st) (map (Pair r) cs) = Some p \<Longrightarrow>
   scan_cols st r cs best cnt = (Some p, Some 1)"
proof (induction cs arbitrary: best cnt)
  case Nil
  then show ?case by simp
next
  case (Cons c cs)
  then show ?case
    by (auto simp: single_def Let_def split: if_splits)
qed

lemma scan_cols_miss:
  "find (single st) (map (Pair r) cs) = None \<Longrightarrow> cnt \<noteq> Some 1 \<Longrightarrow>
   fst (scan_cols st r cs best cnt) =
     (if filter (selectable st) (map (Pair r) cs) = [] then best
      else Some (last (filter (selectable st) (map (Pair r) cs)))) \<and>
   snd (scan_cols st r cs best cnt) \<noteq> Some 1"
proof (induction cs arbitrary: best cnt)
  case Nil
  then show ?case by simp
next
  case (Cons c cs)
  let ?F = "filter (selectable st) (map (Pair r) cs)"
  from Cons.prems(1) have ns: "\<not> single st (r, c)"
    and rest: "find (single st) (map (Pair r) cs) = None"
    by (simp_all split: if_splits)
  show ?case
  proof (cases "\<not> isFixed st r c \<and> cellv (matrix st) r c = Null")
    case True
    let ?k = "card (calcOptions st r c)"
    have k: "?k \<noteq> 1" using ns True by (simp add: single_def)
    let ?b = "if ?k < 10 \<and> 0 < ?k then Some (r, c) else best"
    have step: "scan_cols st r (c # cs) best cnt = scan_cols st r cs ?b (Some ?k)"
      using True k by (simp add: Let_def)
    have IH: "fst (scan_cols st r cs b (Some ?k)) = (if ?F = [] then b else Some (last ?F)) \<and>
        snd (scan_cols st r cs b (Some ?k)) \<noteq> Some 1" for b
      using Cons.IH [OF rest] k by simp
    have sel: "selectable st (r, c) = (?k < 10 \<and> 0 < ?k)"
      using True by (auto simp: selectable_def)
    show ?thesis
    proof (cases "selectable st (r, c)")
      case sc: True
      then have "?b = Some (r, c)" using sel by simp
      with step have "scan_cols st r (c # cs) best cnt = scan_cols st r cs (Some (r, c)) (Some ?k)"
        by simp
      with IH [of "Some (r, c)"] sc show ?thesis by simp
    next
      case sc: False
      then have "?b = best" using sel by auto
      with step have "scan_cols st r (c # cs) best cnt = scan_cols st r cs best (Some ?k)"
        by simp
      with IH [of best] sc show ?thesis by simp
    qed
  next
    case False
    then have "scan_cols st r (c # cs) best cnt = scan_cols st r cs best cnt" by auto
    moreover have "\<not> selectable st (r, c)" using False by (auto simp: selectable_def)
    ultimately show ?thesis using Cons.IH [OF rest Cons.prems(2)] by simp
  qed
qed

lemma pick_append:
  "find hit xs = None \<Longrightarrow>
   pick hit sel (xs @ ys) best =
     pick hit sel ys (if filter sel xs = [] then best else Some (last (filter sel xs)))"
  by (simp add: pick_def find_append_list split: option.splits)

lemma scan_rows_pick:
  "cnt \<noteq> Some 1 \<Longrightarrow>
   fst (scan_rows st rs best cnt) = pick (single st) (selectable st) (row_order st rs) best"
proof (induction rs arbitrary: best cnt)
  case Nil
  then show ?case by (simp add: pick_def row_order_def)
next
  case (Cons r rs)
  let ?cs = "[0..<length (matrix st ! r)]"
  have order: "row_order st (r # rs) = map (Pair r) ?cs @ row_order st rs"
    by (simp add: row_order_def)
  show ?case
  proof (cases "find (single st) (map (Pair r) ?cs)")
    case (Some p)
    then show ?thesis
      by (simp add: order scan_cols_hit pick_def find_append_list)
  next
    case None
    obtain best' cnt' where sc: "scan_cols st r ?cs best cnt = (best', cnt')"
      by fastforce
    with scan_cols_miss [OF None Cons.prems, of best]
    have b: "best' = (if filter (selectable st) (map (Pair r) ?cs) = [] then best
        else Some (last (filter (selectable st) (map (Pair r) ?cs))))"
      and c: "cnt' \<noteq> Some 1"
      by simp_all
    show ?thesis
      using Cons.IH [OF c, of best'] sc c b None by (simp add: order pick_append)
  qed
qed

lemma determineNextCell_spec_eq: "determineNextCell st = next_cell_spec st"
  by (simp add: determineNextCell_def next_cell_spec_def scan_order_def scan_rows_pick)

lemma pick_result:
  assumes "pick hit sel ps best = Some p" "\<And>q. hit q \<Longrightarrow> sel q"
  shows "(p \<in> set ps \<and> sel p) \<or> best = Some p"
proof (cases "find hit ps")
  case (Some q)
  then have "q \<in> set ps" "hit q" by (simp_all add: find_Some_mem)
  with Some assms show ?thesis by (simp add: pick_def)
next
  case None
  with assms(1) show ?thesis
    using last_in_set [of "filter sel ps"] by (auto simp: pick_def split: if_splits)
qed

section \<open>Properties of the heuristic\<close>

text \<open>C10. What \<open>determineNextCell\<close> computes: scanning the cells row by row, it
  returns the first empty, non-fixed cell with exactly one candidate; when there is
  none, the last empty, non-fixed cell whose candidate count is between 1 and 9;
  and no cell when there is neither. It is not the minimum-remaining-values choice:
  \<open>min\<close> is never lowered, and cells with no candidate are skipped.\<close>

theorem determineNextCell_scan:
  "determineNextCell st =
     (case find (single st) (scan_order st) of
        Some p \<Rightarrow> Some p
      | None \<Rightarrow> if filter (selectable st) (scan_order st) = [] then None
                else Some (last (filter (selectable st) (scan_order st))))"
  by (simp add: determineNextCell_spec_eq next_cell_spec_def pick_def)

end
