(* ===== verification/Rendering.thy ===== *)
theory Rendering
  imports Heuristic Complex_Main
begin

text \<open>
  The page side of \<open>src/solver.js\<close>: \<open>renderTable\<close>, \<open>renderNumbers\<close>,
  \<open>colorFixed\<close>, \<open>colorRelatedCells\<close>, \<open>colorCell\<close> and \<open>mergeColors\<close>.
  The DOM table is a list of rows of cells; each operation returns the updated page
  or \<open>TypeError\<close> when it reaches a cell the table does not have. The lemmas show
  that the operations keep the table's shape, what they write, which candidate
  updates \<open>colorFixed\<close> makes, and the bounds of the colours.
\<close>

section \<open>The page\<close>

text \<open>What a table cell shows: nothing yet, a fixed digit, or an input box.\<close>

datatype content = Blank | FixedSpan string | InputBox string

record cell =
  content :: content
  bg :: string
  cls :: string

text \<open>A call of \<open>colorCell\<close>: the cell, its colour and whether it is highlighted.\<close>

datatype paint = Paint nat nat string bool

datatype dom_error = TypeError

record page =
  rendered :: nat
  table :: "cell list list"
  painted :: "paint list"

fun nat_str :: "nat \<Rightarrow> string" where
  "nat_str n = (if n < 10 then [''0123456789'' ! n]
                else nat_str (n div 10) @ [''0123456789'' ! (n mod 10)])"

fun js_str :: "val \<Rightarrow> string" where
  "js_str Null = ''null''"
| "js_str (Num n) = nat_str n"
| "js_str (Key n) = nat_str n"
| "js_str NaN = ''NaN''"

declare nat_str.simps [simp del]

section \<open>Table operations\<close>

text \<open>A cell as \<open>insertCell\<close> creates it, with \<open>style.backgroundColor = "transparent"\<close>.\<close>

definition blank_cell :: cell where
  "blank_cell = \<lparr>content = Blank, bg = ''transparent'', cls = []\<rparr>"

text \<open>\<open>renderTable\<close>: nine rows appended with \<open>insertRow(rows.length)\<close>, each
  with nine cells appended with \<open>insertCell(cells.length)\<close>.\<close>

definition renderTable :: "page \<Rightarrow> page" where
  "renderTable p = p\<lparr>table := table p @ replicate 9 (replicate 9 blank_cell)\<rparr>"

text \<open>\<open>table.rows[r].cells[c]\<close> exists.\<close>

definition has_cell :: "page \<Rightarrow> nat \<Rightarrow> nat \<Rightarrow> bool" where
  "has_cell p r c = (r < length (table p) \<and> c < length (table p ! r))"

definition set_cell :: "page \<Rightarrow> nat \<Rightarrow> nat \<Rightarrow> (cell \<Rightarrow> cell) \<Rightarrow> page" where
  "set_cell p r c f = p\<lparr>table := (table p)[r := (table p ! r)[c := f (table p ! r ! c)]]\<rparr>"

text \<open>The \<open>innerHTML\<close> \<open>renderNumbers\<close> writes: a span with \<open>""+value\<close> for a fixed
  cell, an input whose value is \<open>value ? value : ""\<close> otherwise.\<close>

definition cell_html :: "bool \<Rightarrow> val \<Rightarrow> content" where
  "cell_html isfixed v = (if isfixed then FixedSpan (js_str v) else InputBox (if truthy v then js_str v else []))"

text \<open>The loop of \<open>renderNumbers\<close> over the cells; a missing table cell is a
  \<open>TypeError\<close>.\<close>

fun renderCells :: "solver \<Rightarrow> coord list \<Rightarrow> page \<Rightarrow> dom_error + page" where
  "renderCells st [] p = Inr p"
| "renderCells st ((r, c) # ps) p =
     (if has_cell p r c
      then renderCells st ps
             (set_cell p r c (\<lambda>x. x\<lparr>content := cell_html (isFixed st r c) (cellv (matrix st) r c)\<rparr>))
      else Inl TypeError)"

section \<open>Colours\<close>

text \<open>One colour channel of \<open>mergeColors\<close>: \<open>255 - 255 * count/10\<close>. JavaScript
  computes it in binary floating point; every value for a count up to 10 is a multiple
  of one half below 256, which a double holds exactly, so the rational value is the
  value computed.\<close>

definition channel :: "nat \<Rightarrow> rat" where
  "channel n = 255 - 255 * of_nat n / 10"

text \<open>\<open>mergeColors\<close>: \<open>"#"\<close> followed by \<open>Math2.dec2hex\<close> of each channel. The
  library function \<open>dec2hex\<close> is not part of the repository and is a parameter.\<close>

definition mergeColors :: "(rat \<Rightarrow> string) \<Rightarrow> nat list \<Rightarrow> string" where
  "mergeColors dec2hex counts = ''#'' @ concat (map (dec2hex \<circ> channel) counts)"

text \<open>\<open>colorCell\<close>: the colour from the sizes of the row, column and block
  candidate sets (\<open>Set.count\<close>); a highlighted cell first flashes yellow, then
  takes the colour with the \<open>smooth\<close> transition.\<close>

definition colorCell ::
  "(rat \<Rightarrow> string) \<Rightarrow> solver \<Rightarrow> nat \<Rightarrow> nat \<Rightarrow> nat \<Rightarrow> bool \<Rightarrow> page \<Rightarrow> dom_error + page" where
  "colorCell dec2hex st r c q hl p =
     (if has_cell p r c then
        let color = mergeColors dec2hex [card (row st ! r), card (column st ! c), card (quadrant st ! q)]
        in Inr ((set_cell p r c (\<lambda>x. x\<lparr>bg := color, cls := ''smooth''\<rparr>))
                  \<lparr>painted := painted p @ [Paint r c color hl]\<rparr>)
      else Inl TypeError)"

text \<open>The loop of \<open>colorRelatedCells\<close> over the cells of the matrix: each cell
  in the step's row, column or block is coloured, highlighted when it is the step's
  own cell and \<open>highlightSelf\<close> is set.\<close>

fun paintCells ::
  "(rat \<Rightarrow> string) \<Rightarrow> solver \<Rightarrow> coord \<Rightarrow> bool \<Rightarrow> coord list \<Rightarrow> page \<Rightarrow> dom_error + page" where
  "paintCells dec2hex st s hl [] p = Inr p"
| "paintCells dec2hex st (sr, sc) hl ((r, c) # ps) p =
     (if r = sr \<or> c = sc \<or> quadrantNumber r c = quadrantNumber sr sc then
        (case colorCell dec2hex st r c (quadrantNumber r c) (hl \<and> r = sr \<and> c = sc) p of
           Inl e \<Rightarrow> Inl e
         | Inr p' \<Rightarrow> paintCells dec2hex st (sr, sc) hl ps p')
      else paintCells dec2hex st (sr, sc) hl ps p)"

definition colorRelatedCells ::
  "(rat \<Rightarrow> string) \<Rightarrow> solver \<Rightarrow> coord \<Rightarrow> bool \<Rightarrow> page \<Rightarrow> dom_error + page" where
  "colorRelatedCells dec2hex st s hl p = paintCells dec2hex st s hl (scan_order st) p"

section \<open>Fixed cells and the numbers\<close>

text \<open>The property name of a coordinate pair in \<open>this.fixed\<close>: \<open>String([r, c])\<close>,
  that is \<open>"r,c"\<close>.\<close>

definition fixed_key :: "coord \<Rightarrow> string" where
  "fixed_key p = nat_str (fst p) @ '','' @ nat_str (snd p)"

text \<open>\<open>colorFixed\<close> reads the row from \<open>f[0]\<close> and the column from \<open>f[2]\<close>, one
  character each; used as an index, a digit string is the number it spells.\<close>

definition digit_char :: "char \<Rightarrow> nat" where
  "digit_char ch = of_char ch - 48"

definition key_coord :: "string \<Rightarrow> coord" where
  "key_coord f = (digit_char (f ! 0), digit_char (f ! 2))"

text \<open>The property names of \<open>this.fixed\<close> in enumeration order. \<open>init\<close> is the
  only writer of \<open>fixed\<close> and adds the pairs row by row to an empty object, so the
  insertion order \<open>for ... in\<close> follows is the row-major order of the cells.\<close>

definition fixed_keys :: "solver \<Rightarrow> string list" where
  "fixed_keys st = map fixed_key (filter (\<lambda>p. p \<in> fixed st) cells)"

text \<open>The loop of \<open>colorFixed\<close>: remove each fixed digit from its row, column and
  block sets again, and recolour the cells related to it (not highlighted).\<close>

fun colorFixed_loop ::
  "(rat \<Rightarrow> string) \<Rightarrow> string list \<Rightarrow> solver \<Rightarrow> page \<Rightarrow> dom_error + solver \<times> page" where
  "colorFixed_loop dec2hex [] st p = Inr (st, p)"
| "colorFixed_loop dec2hex (f # fs) st p =
     (let (r, c) = key_coord f;
          st' = updateOptions (key (cellv (matrix st) r c)) r c st
      in case colorRelatedCells dec2hex st' (r, c) False p of
           Inl e \<Rightarrow> Inl e
         | Inr p' \<Rightarrow> colorFixed_loop dec2hex fs st' p')"

definition colorFixed :: "(rat \<Rightarrow> string) \<Rightarrow> solver \<Rightarrow> page \<Rightarrow> dom_error + solver \<times> page" where
  "colorFixed dec2hex st p = colorFixed_loop dec2hex (fixed_keys st) st p"

text \<open>\<open>renderNumbers\<close>: write every cell, then \<open>colorFixed\<close>.\<close>

definition renderNumbers :: "(rat \<Rightarrow> string) \<Rightarrow> solver \<Rightarrow> page \<Rightarrow> dom_error + solver \<times> page" where
  "renderNumbers dec2hex st p =
     (case renderCells st cells p of
        Inl e \<Rightarrow> Inl e
      | Inr p' \<Rightarrow> colorFixed dec2hex st p')"

section \<open>Shape of the table\<close>

definition shape :: "page \<Rightarrow> nat list" where
  "shape p = map length (table p)"

definition contents :: "page \<Rightarrow> content list list" where
  "contents p = map (map content) (table p)"

definition board9 :: "page \<Rightarrow> bool" where
  "board9 p = (shape p = replicate 9 9)"

text \<open>The cells \<open>colorRelatedCells\<close> recolours for a step at \<open>s\<close>, and the colour
  \<open>colorCell\<close> gives a cell.\<close>

definition related :: "coord \<Rightarrow> coord \<Rightarrow> bool" where
  "related s p = (fst p = fst s \<or> snd p = snd s \<or>
                  quadrantNumber (fst p) (snd p) = quadrantNumber (fst s) (snd s))"

definition cell_colour :: "(rat \<Rightarrow> string) \<Rightarrow> solver \<Rightarrow> nat \<Rightarrow> nat \<Rightarrow> string" where
  "cell_colour dec2hex st r c =
     mergeColors dec2hex [card (row st ! r), card (column st ! c), card (quadrant st ! quadrantNumber r c)]"

definition fits9 :: "val list list \<Rightarrow> bool" where
  "fits9 m = (length m \<le> 9 \<and> (\<forall>xs \<in> set m. length xs \<le> 9))"

text \<open>A sequence of \<open>updateOptions\<close> calls, each a digit and a cell.\<close>

fun applyUpdates :: "(nat \<times> coord) list \<Rightarrow> solver \<Rightarrow> solver" where
  "applyUpdates [] st = st"
| "applyUpdates ((n, (r, c)) # us) st = applyUpdates us (updateOptions n r c st)"

section \<open>Lemmas on the table\<close>

lemma has_cell_shape: "shape p' = shape p \<Longrightarrow> has_cell p' r c = has_cell p r c"
  unfolding has_cell_def shape_def by (metis length_map nth_map)

lemma board9_has_cell: "board9 p \<Longrightarrow> r < 9 \<Longrightarrow> c < 9 \<Longrightarrow> has_cell p r c"
  unfolding board9_def has_cell_def shape_def by (metis length_map length_replicate nth_map nth_replicate)

lemma set_cell_shape [simp]: "shape (set_cell p r c f) = shape p"
  by (simp add: shape_def set_cell_def map_update map_update_same)

lemma set_cell_contents:
  assumes "\<And>x. content (f x) = content x"
  shows "contents (set_cell p r c f) = contents p"
  using assms by (simp add: contents_def set_cell_def map_update map_update_same)

lemma set_cell_content_at:
  "has_cell p r c \<Longrightarrow> content (table (set_cell p r c f) ! i ! j) =
     (if (i, j) = (r, c) then content (f (table p ! r ! c)) else content (table p ! i ! j))"
  by (auto simp: set_cell_def has_cell_def nth_list_update)

lemma set_cell_painted [simp]: "painted (set_cell p r c f) = painted p"
  by (simp add: set_cell_def)

lemma set_cell_rendered [simp]: "rendered (set_cell p r c f) = rendered p"
  by (simp add: set_cell_def)

lemma shape_painted [simp]: "shape (p\<lparr>painted := x\<rparr>) = shape p"
  and contents_painted [simp]: "contents (p\<lparr>painted := x\<rparr>) = contents p"
  by (simp_all add: shape_def contents_def)

lemma colorCell_Inr:
  assumes "has_cell p r c"
  shows "\<exists>p'. colorCell dec2hex st r c (quadrantNumber r c) hl p = Inr p' \<and>
           shape p' = shape p \<and> contents p' = contents p \<and> rendered p' = rendered p \<and>
           painted p' = painted p @ [Paint r c (cell_colour dec2hex st r c) hl]"
  using assms by (simp add: colorCell_def cell_colour_def set_cell_contents Let_def)

lemma paintCells_Inr:
  "board9 p \<Longrightarrow> set ps \<subseteq> set cells \<Longrightarrow>
   \<exists>p'. paintCells dec2hex st s hl ps p = Inr p' \<and>
     shape p' = shape p \<and> contents p' = contents p \<and> rendered p' = rendered p \<and>
     painted p' = painted p @ map (\<lambda>q. Paint (fst q) (snd q) (cell_colour dec2hex st (fst q) (snd q))
                                      (hl \<and> q = s)) (filter (related s) ps)"
proof (induction ps arbitrary: p)
  case Nil
  then show ?case by simp
next
  case (Cons q ps)
  obtain r c where q: "q = (r, c)" by fastforce
  obtain sr sc where s: "s = (sr, sc)" by fastforce
  have rc: "r < 9" "c < 9" using Cons.prems(2) q by (auto simp: set_cells)
  show ?case
  proof (cases "related s q")
    case True
    obtain p1 where p1: "colorCell dec2hex st r c (quadrantNumber r c) (hl \<and> r = sr \<and> c = sc) p = Inr p1"
      "shape p1 = shape p" "contents p1 = contents p" "rendered p1 = rendered p"
      "painted p1 = painted p @ [Paint r c (cell_colour dec2hex st r c) (hl \<and> r = sr \<and> c = sc)]"
      using colorCell_Inr [OF board9_has_cell [OF Cons.prems(1) rc]] by blast
    have "board9 p1" using p1(2) Cons.prems(1) by (simp add: board9_def)
    with Cons.IH [of p1] Cons.prems(2) p1 True q s show ?thesis
      by (auto simp: related_def)
  next
    case False
    with Cons.IH [OF Cons.prems(1)] Cons.prems(2) q s show ?thesis
      by (auto simp: related_def)
  qed
qed

lemma scan_order_fits: "fits9 (matrix st) \<Longrightarrow> set (scan_order st) \<subseteq> set cells"
  by (auto simp: scan_order_def row_order_def fits9_def set_cells)
    (meson nth_mem order_less_le_trans)

lemma colorRelatedCells_Inr:
  "board9 p \<Longrightarrow> fits9 (matrix st) \<Longrightarrow>
   \<exists>p'. colorRelatedCells dec2hex st s hl p = Inr p' \<and>
     shape p' = shape p \<and> contents p' = contents p \<and> rendered p' = rendered p \<and>
     painted p' = painted p @ map (\<lambda>q. Paint (fst q) (snd q) (cell_colour dec2hex st (fst q) (snd q))
                                      (hl \<and> q = s)) (filter (related s) (scan_order st))"
  unfolding colorRelatedCells_def by (rule paintCells_Inr) (simp_all add: scan_order_fits)

section \<open>Lemmas on candidate updates\<close>

lemma updateOptions_lengths [simp]:
  "length (row (updateOptions n r c st)) = length (row st)"
  "length (column (updateOptions n r c st)) = length (column st)"
  "length (quadrant (updateOptions n r c st)) = length (quadrant st)"
  by (simp_all add: updateOptions_def Let_def)

lemma updateOptions_nth:
  assumes "r < length (row st)" "c < length (column st)" "quadrantNumber r c < length (quadrant st)"
  shows "row (updateOptions n r c st) ! i = (if i = r then row st ! i - {n} else row st ! i)"
    "column (updateOptions n r c st) ! i = (if i = c then column st ! i - {n} else column st ! i)"
    "quadrant (updateOptions n r c st) ! i =
       (if i = quadrantNumber r c then quadrant st ! i - {n} else quadrant st ! i)"
  using assms by (auto simp: updateOptions_def Let_def nth_list_update)

lemma applyUpdates_frame [simp]:
  "matrix (applyUpdates us st) = matrix st" "fixed (applyUpdates us st) = fixed st"
  "solution (applyUpdates us st) = solution st" "allocated (applyUpdates us st) = allocated st"
  "sudokuString (applyUpdates us st) = sudokuString st" "cycles (applyUpdates us st) = cycles st"
  "length (row (applyUpdates us st)) = length (row st)"
  "length (column (applyUpdates us st)) = length (column st)"
  "length (quadrant (applyUpdates us st)) = length (quadrant st)"
  by (induction us st rule: applyUpdates.induct) (simp_all add: updateOptions_def Let_def)

lemma applyUpdates_append: "applyUpdates (xs @ ys) st = applyUpdates ys (applyUpdates xs st)"
  by (induction xs st rule: applyUpdates.induct) simp_all

lemma applyUpdates_sets:
  assumes "length (row st) = 9" "length (column st) = 9" "length (quadrant st) = 9"
    "\<forall>u \<in> set us. snd u \<in> set cells" "i < 9"
  shows "row (applyUpdates us st) ! i = row st ! i - {fst u |u. u \<in> set us \<and> fst (snd u) = i} \<and>
    column (applyUpdates us st) ! i = column st ! i - {fst u |u. u \<in> set us \<and> snd (snd u) = i} \<and>
    quadrant (applyUpdates us st) ! i =
      quadrant st ! i - {fst u |u. u \<in> set us \<and> quadrantNumber (fst (snd u)) (snd (snd u)) = i}"
  using assms
proof (induction us st rule: applyUpdates.induct)
  case 1
  then show ?case by simp
next
  case (2 n r c us st)
  have rc: "r < 9" "c < 9" using "2.prems"(4) by (auto simp: set_cells)
  have q: "quadrantNumber r c < 9" using rc by (rule quadrantNumber_lt)
  have lens: "r < length (row st)" "c < length (column st)" "quadrantNumber r c < length (quadrant st)"
    using rc q "2.prems"(1-3) by simp_all
  note U = updateOptions_nth [OF lens]
  have IH: "row (applyUpdates us (updateOptions n r c st)) ! i =
        row (updateOptions n r c st) ! i - {fst u |u. u \<in> set us \<and> fst (snd u) = i} \<and>
      column (applyUpdates us (updateOptions n r c st)) ! i =
        column (updateOptions n r c st) ! i - {fst u |u. u \<in> set us \<and> snd (snd u) = i} \<and>
      quadrant (applyUpdates us (updateOptions n r c st)) ! i =
        quadrant (updateOptions n r c st) ! i -
          {fst u |u. u \<in> set us \<and> quadrantNumber (fst (snd u)) (snd (snd u)) = i}"
    using "2.IH" "2.prems" by simp
  have R: "row (applyUpdates ((n, r, c) # us) st) ! i =
      row st ! i - {fst u |u. u \<in> set ((n, r, c) # us) \<and> fst (snd u) = i}"
    using IH by (cases "i = r") (auto simp: U)
  have C: "column (applyUpdates ((n, r, c) # us) st) ! i =
      column st ! i - {fst u |u. u \<in> set ((n, r, c) # us) \<and> snd (snd u) = i}"
    using IH by (cases "i = c") (auto simp: U)
  have Q: "quadrant (applyUpdates ((n, r, c) # us) st) ! i =
      quadrant st ! i - {fst u |u. u \<in> set ((n, r, c) # us) \<and> quadrantNumber (fst (snd u)) (snd (snd u)) = i}"
    using IH by (cases "i = quadrantNumber r c") (auto simp: U)
  show ?case using R C Q by blast
qed

section \<open>Lemmas on fixed cells and rendering\<close>

lemma digit_char_digit: "n < 10 \<Longrightarrow> digit_char (''0123456789'' ! n) = n"
  by (auto simp: digit_char_def less_Suc_eq numeral_eq_Suc)

lemma nat_str_digit: "n < 10 \<Longrightarrow> nat_str n = [''0123456789'' ! n]"
  by (simp add: nat_str.simps)

lemma key_coord_fixed_key: "r < 10 \<Longrightarrow> c < 10 \<Longrightarrow> key_coord (fixed_key (r, c)) = (r, c)"
  by (simp add: key_coord_def fixed_key_def nat_str_digit digit_char_digit)

lemma colorFixed_loop_Inr:
  "board9 p \<Longrightarrow> fits9 (matrix st) \<Longrightarrow> \<forall>f \<in> set fs. key_coord f \<in> set cells \<Longrightarrow>
   \<exists>st' p'. colorFixed_loop dec2hex fs st p = Inr (st', p') \<and>
     st' = applyUpdates (map (\<lambda>q. (key (cellv (matrix st) (fst q) (snd q)), q)) (map key_coord fs)) st \<and>
     shape p' = shape p \<and> contents p' = contents p \<and> rendered p' = rendered p"
proof (induction fs arbitrary: st p)
  case Nil
  then show ?case by simp
next
  case (Cons f fs)
  obtain r c where f: "key_coord f = (r, c)" by fastforce
  let ?st1 = "updateOptions (key (cellv (matrix st) r c)) r c st"
  have fit1: "fits9 (matrix ?st1)" using Cons.prems(2) by simp
  obtain p1 where p1: "colorRelatedCells dec2hex ?st1 (r, c) False p = Inr p1"
    "shape p1 = shape p" "contents p1 = contents p" "rendered p1 = rendered p"
    using colorRelatedCells_Inr [OF Cons.prems(1) fit1] by blast
  have "board9 p1" using p1(2) Cons.prems(1) by (simp add: board9_def)
  from Cons.IH [OF this fit1] Cons.prems(3) p1 f show ?case
    by (auto simp: Let_def)
qed

lemma renderCells_Inr:
  "board9 p \<Longrightarrow> set ps \<subseteq> set cells \<Longrightarrow>
   \<exists>p'. renderCells st ps p = Inr p' \<and> shape p' = shape p \<and> rendered p' = rendered p \<and>
     (\<forall>i j. has_cell p i j \<longrightarrow> content (table p' ! i ! j) =
        (if (i, j) \<in> set ps then cell_html (isFixed st i j) (cellv (matrix st) i j)
         else content (table p ! i ! j)))"
proof (induction ps arbitrary: p)
  case Nil
  then show ?case by simp
next
  case (Cons q ps)
  obtain r c where q: "q = (r, c)" by fastforce
  have rc: "r < 9" "c < 9" using Cons.prems(2) q by (auto simp: set_cells)
  have hc: "has_cell p r c" using board9_has_cell [OF Cons.prems(1) rc] .
  let ?p1 = "set_cell p r c (\<lambda>x. x\<lparr>content := cell_html (isFixed st r c) (cellv (matrix st) r c)\<rparr>)"
  have b1: "board9 ?p1" using Cons.prems(1) by (simp add: board9_def)
  obtain p' where p': "renderCells st ps ?p1 = Inr p'" "shape p' = shape ?p1" "rendered p' = rendered ?p1"
    "\<forall>i j. has_cell ?p1 i j \<longrightarrow> content (table p' ! i ! j) =
        (if (i, j) \<in> set ps then cell_html (isFixed st i j) (cellv (matrix st) i j)
         else content (table ?p1 ! i ! j))"
    using Cons.IH [OF b1] Cons.prems(2) by auto
  have same: "has_cell ?p1 i j = has_cell p i j" for i j by (rule has_cell_shape) simp
  have run: "renderCells st (q # ps) p = Inr p'" using p'(1) hc q by simp
  have "content (table p' ! i ! j) =
      (if (i, j) \<in> set (q # ps) then cell_html (isFixed st i j) (cellv (matrix st) i j)
       else content (table p ! i ! j))" if "has_cell p i j" for i j
    using p'(4) same [of i j] that set_cell_content_at [OF hc, of _ i j] q by auto
  then show ?case using run p'(2,3) by simp
qed

lemma contents_at:
  "contents p' = contents p \<Longrightarrow> has_cell p i j \<Longrightarrow> content (table p' ! i ! j) = content (table p ! i ! j)"
proof -
  assume c: "contents p' = contents p" and h: "has_cell p i j"
  have l1: "length (table p') = length (table p)"
    using arg_cong [OF c, of length] by (simp add: contents_def)
  have l2: "length (table p' ! i) = length (table p ! i)"
    using arg_cong [OF c, of "\<lambda>x. length (x ! i)"] h l1 by (simp add: contents_def has_cell_def)
  have "contents p' ! i ! j = contents p ! i ! j" using c by simp
  then show ?thesis using h l1 l2 by (simp add: contents_def has_cell_def)
qed

lemma fixed_keys_coords: "map key_coord (fixed_keys st) = filter (\<lambda>p. p \<in> fixed st) cells"
proof -
  have "(key_coord \<circ> fixed_key) p = p" if "p \<in> set (filter (\<lambda>p. p \<in> fixed st) cells)" for p
    using that key_coord_fixed_key by (auto simp: set_cells)
  then show ?thesis unfolding fixed_keys_def map_map by (rule map_idI)
qed

lemma renderNumbers_Inr:
  assumes "board9 p" "fits9 (matrix st)"
  shows "\<exists>st' p'. renderNumbers dec2hex st p = Inr (st', p') \<and>
     st' = applyUpdates (map (\<lambda>q. (key (cellv (matrix st) (fst q) (snd q)), q))
                          (filter (\<lambda>p. p \<in> fixed st) cells)) st \<and>
     shape p' = shape p \<and> rendered p' = rendered p \<and>
     (\<forall>i < 9. \<forall>j < 9. content (table p' ! i ! j) = cell_html (isFixed st i j) (cellv (matrix st) i j))"
proof -
  obtain p1 where p1: "renderCells st cells p = Inr p1" "shape p1 = shape p" "rendered p1 = rendered p"
    "\<forall>i j. has_cell p i j \<longrightarrow> content (table p1 ! i ! j) =
        (if (i, j) \<in> set cells then cell_html (isFixed st i j) (cellv (matrix st) i j)
         else content (table p ! i ! j))"
    using renderCells_Inr [OF assms(1), of cells st] by auto
  have b1: "board9 p1" using p1(2) assms(1) by (simp add: board9_def)
  have keys: "\<forall>f \<in> set (fixed_keys st). key_coord f \<in> set cells"
  proof
    fix f assume "f \<in> set (fixed_keys st)"
    then have "key_coord f \<in> set (map key_coord (fixed_keys st))" by simp
    then show "key_coord f \<in> set cells" unfolding fixed_keys_coords by simp
  qed
  obtain st' p' where r: "colorFixed_loop dec2hex (fixed_keys st) st p1 = Inr (st', p')"
    "st' = applyUpdates (map (\<lambda>q. (key (cellv (matrix st) (fst q) (snd q)), q))
                          (map key_coord (fixed_keys st))) st"
    "shape p' = shape p1" "contents p' = contents p1" "rendered p' = rendered p1"
    using colorFixed_loop_Inr [OF b1 assms(2) keys] by blast
  have "content (table p' ! i ! j) = cell_html (isFixed st i j) (cellv (matrix st) i j)"
    if "i < 9" "j < 9" for i j
    using contents_at [OF r(4) board9_has_cell [OF b1 that]] p1(4) board9_has_cell [OF assms(1) that] that
    by (simp add: set_cells)
  then show ?thesis
    using r p1 by (simp add: renderNumbers_def colorFixed_def fixed_keys_coords)
qed

lemma scan_order_cells: "wf_grid (matrix st) \<Longrightarrow> scan_order st = cells"
  by (auto simp: scan_order_def row_order_def cells_def wf_grid_def concat_map_singleton
      intro!: arg_cong [where f = concat] map_cong)

lemma related_count: "\<forall>s \<in> set cells. length (filter (related s) cells) = 21"
  by code_simp

lemma channel_bounds: "n \<le> 9 \<Longrightarrow> 51 / 2 \<le> channel n \<and> channel n \<le> 255"
  by (simp add: channel_def)

lemma half_odd_not_int:
  assumes "odd (k :: int)"
  shows "(of_int k / 2 :: rat) \<notin> \<int>"
proof
  assume "(of_int k / 2 :: rat) \<in> \<int>"
  then obtain m where "(of_int k / 2 :: rat) = of_int m" by (auto elim: Ints_cases)
  then have "(of_int k :: rat) = of_int (2 * m)" by (simp add: field_simps)
  then have "k = 2 * m" by (simp only: of_int_eq_iff)
  with assms show False by simp
qed

lemma channel_int: "(channel n \<in> \<int>) = even n"
proof (cases "even n")
  case True
  then obtain k where "n = 2 * k" by blast
  then have "channel n = of_int (255 - 51 * int k)" by (simp add: channel_def)
  then show ?thesis using True by simp
next
  case False
  have eq: "channel n = of_int (510 - 51 * int n) / 2" by (simp add: channel_def field_simps)
  have "odd (510 - 51 * int n)" using False by simp
  from half_odd_not_int [OF this] False show ?thesis unfolding eq by simp
qed

lemma card_opts_le:
  assumes "inv st" "i < 9"
  shows "card (row st ! i) \<le> 9 \<and> card (column st ! i) \<le> 9 \<and> card (quadrant st ! i) \<le> 9"
proof -
  have "card (numbers - A) \<le> 9" for A
    using card_mono [of numbers "numbers - A"] by (simp add: numbers_def)
  then show ?thesis using assms by (simp add: inv_def opts_ok_def)
qed

section \<open>Properties of rendering\<close>

text \<open>C18. Round trip of the fixed-cell property names: \<open>colorFixed\<close> reads back
  the coordinates of every cell of the board from \<open>f[0]\<close> and \<open>f[2]\<close> of its name
  \<open>"r,c"\<close>; the scheme relies on single-digit coordinates and misreads a row of 10.\<close>

theorem fixed_key_roundtrip:
  "(\<forall>p \<in> set cells. key_coord (fixed_key p) = p) \<and> key_coord (fixed_key (10, 0)) = (1, 0)"
proof -
  have "key_coord (fixed_key p) = p" if "p \<in> set cells" for p
    using that key_coord_fixed_key by (auto simp: set_cells)
  moreover have "key_coord (fixed_key (10, 0)) = (1, 0)"
    by (simp add: key_coord_def fixed_key_def nat_str.simps digit_char_def)
  ultimately show ?thesis by blast
qed

text \<open>C19. Bounds of the colours: in a state satisfying the invariant, each of the
  three channels \<open>colorCell\<close> computes for a cell lies between 25.5 and 255, and it
  is a whole number exactly when the candidate count is even, so \<open>Math2.dec2hex\<close>
  is handed values such as 229.5.\<close>

theorem colour_channel_bounds:
  assumes "inv st" "r < 9" "c < 9"
  shows "\<forall>n \<in> set [card (row st ! r), card (column st ! c), card (quadrant st ! quadrantNumber r c)].
           51 / 2 \<le> channel n \<and> channel n \<le> 255 \<and> (channel n \<in> \<int>) = even n"
proof -
  have q: "quadrantNumber r c < 9" using assms(2,3) by (rule quadrantNumber_lt)
  have "card (row st ! r) \<le> 9" "card (column st ! c) \<le> 9" "card (quadrant st ! quadrantNumber r c) \<le> 9"
    using card_opts_le [OF assms(1) assms(2)] card_opts_le [OF assms(1) assms(3)]
      card_opts_le [OF assms(1) q] by simp_all
  then show ?thesis using channel_bounds channel_int by auto
qed

text \<open>C20. \<open>colorRelatedCells\<close> on a well-formed board recolours exactly the
  21 cells that share a row, column or block with the step's cell, each once and in
  row-major order, highlights only the step's own cell (and only when asked), and
  leaves the contents of every cell alone.\<close>

theorem colorRelatedCells_paints:
  assumes "board9 p" "wf_grid (matrix st)" "s \<in> set cells"
  shows "\<exists>p'. colorRelatedCells dec2hex st s hl p = Inr p' \<and> contents p' = contents p \<and>
           painted p' = painted p @ map (\<lambda>q. Paint (fst q) (snd q) (cell_colour dec2hex st (fst q) (snd q))
                                             (hl \<and> q = s)) (filter (related s) cells) \<and>
           length (filter (related s) cells) = 21"
proof -
  have "fits9 (matrix st)" using assms(2) by (simp add: fits9_def wf_grid_def)
  from colorRelatedCells_Inr [OF assms(1) this, of dec2hex s hl]
  have "\<exists>p'. colorRelatedCells dec2hex st s hl p = Inr p' \<and> contents p' = contents p \<and>
      painted p' = painted p @ map (\<lambda>q. Paint (fst q) (snd q) (cell_colour dec2hex st (fst q) (snd q))
                                        (hl \<and> q = s)) (filter (related s) cells)"
    unfolding scan_order_cells [OF assms(2)] by blast
  moreover have "length (filter (related s) cells) = 21" using related_count assms(3) by blast
  ultimately show ?thesis by blast
qed

end
