(* ===== verification/Search.thy ===== *)
theory Search
  imports Heuristic
begin

text \<open>
  The search driver of \<open>src/solver.js\<close>: \<open>solveCell\<close>, its loop over the
  candidates of the chosen cell (\<open>tryNumbers\<close>), and \<open>solve\<close>. The recursion
  of the source has no bound; the model gives \<open>solveCell\<close> a fuel argument
  (one unit per nested call) and \<open>None\<close> when it runs out, and \<open>solve\<close>
  uses 82, one more than the number of cells. The \<open>SolvedException\<close> thrown by
  the 81st \<open>allocate\<close> and caught in \<open>solveCell\<close> is the \<open>Inl\<close> result
  of \<open>allocate\<close>. The lemmas prove, by one mutual induction over the two
  functions, that a \<open>true\<close> result is a complete grid without conflicts that
  keeps every filled cell and records its steps in \<open>solution\<close>, that a
  \<open>false\<close> result restores the state (all but the global \<open>cycles\<close>) and
  that no Sudoku solution extends the grid, and that the fuel of \<open>solve\<close> is
  always enough.
\<close>

section \<open>Operations\<close>

text \<open>\<open>solveCell\<close> and its \<open>for (var number in ...)\<close> loop. When
  \<open>determineNextCell\<close> finds no cell, \<open>row\<close> and \<open>column\<close> are
  \<open>undefined\<close> and the intersection of the three undefined sets has no key,
  so the loop does not run and \<open>false\<close> is returned. A solved allocation or a
  solved recursive call appends the step to \<open>solution\<close>; a failed one is undone
  by \<open>unallocate\<close>.\<close>

fun solveCell :: "nat \<Rightarrow> solver \<Rightarrow> (bool \<times> solver) option"
and tryNumbers :: "nat \<Rightarrow> nat \<Rightarrow> nat \<Rightarrow> nat list \<Rightarrow> solver \<Rightarrow> (bool \<times> solver) option" where
  "solveCell 0 st = None"
| "solveCell (Suc f) st =
     (case determineNextCell st of
        None \<Rightarrow> Some (False, st)
      | Some (r, c) \<Rightarrow> tryNumbers f r c (sorted_list_of_set (calcOptions st r c)) st)"
| "tryNumbers f r c [] st = Some (False, st)"
| "tryNumbers f r c (n # ns) st =
     (case allocate (Key n) r c st of
        Inl (e, st1) \<Rightarrow> Some (True, st1\<lparr>solution := solution st1 @ [Step (Key n) r c]\<rparr>)
      | Inr st1 \<Rightarrow>
          (case solveCell f st1 of
             None \<Rightarrow> None
           | Some (True, st2) \<Rightarrow> Some (True, st2\<lparr>solution := solution st2 @ [Step (Key n) r c]\<rparr>)
           | Some (False, st2) \<Rightarrow> tryNumbers f r c ns (unallocate (Key n) r c st2)))"

text \<open>\<open>solve\<close>, with the fuel bound.\<close>

definition solve :: "solver \<Rightarrow> (bool \<times> solver) option" where
  "solve st = solveCell 82 st"

section \<open>Specification of a solved search\<close>

text \<open>Replaying a list of steps on a matrix, as the animation does.\<close>

fun replay :: "step list \<Rightarrow> val list list \<Rightarrow> val list list" where
  "replay [] m = m"
| "replay (Step v r c # ss) m = replay ss (set2 m r c v)"

text \<open>The cell a step writes.\<close>

fun step_at :: "step \<Rightarrow> coord" where
  "step_at (Step v r c) = (r, c)"

definition empty_cells :: "val list list \<Rightarrow> nat" where
  "empty_cells m = length (filter (\<lambda>p. \<not> filled m p) cells)"

definition solved_from :: "val list list \<Rightarrow> step list \<Rightarrow> solver \<Rightarrow> step list \<Rightarrow> bool" where
  "solved_from m sol st' new =
     (wf_grid (matrix st') \<and> consistent (matrix st') \<and> (\<forall>p \<in> set cells. filled (matrix st') p) \<and>
      (\<forall>p \<in> set cells. filled m p \<longrightarrow> cellv (matrix st') (fst p) (snd p) = cellv m (fst p) (snd p)) \<and>
      solution st' = sol @ new \<and> matrix st' = replay (rev new) m \<and> length new = empty_cells m \<and>
      (\<forall>s \<in> set new. step_at s \<in> set cells \<and> \<not> filled m (step_at s)))"

text \<open>What a result of the search guarantees.\<close>

definition search_ok :: "solver \<Rightarrow> (bool \<times> solver) option \<Rightarrow> bool" where
  "search_ok st res =
     (case res of
        None \<Rightarrow> True
      | Some (True, st') \<Rightarrow> (\<exists>new. solved_from (matrix st) (solution st) st' new)
      | Some (False, st') \<Rightarrow> st' = st\<lparr>cycles := cycles st'\<rparr> \<and>
          (\<forall>g. is_solution g \<longrightarrow> \<not> extends (matrix st) g))"

definition try_ok :: "solver \<Rightarrow> nat \<Rightarrow> nat \<Rightarrow> nat list \<Rightarrow> (bool \<times> solver) option \<Rightarrow> bool" where
  "try_ok st r c ns res =
     (case res of
        None \<Rightarrow> True
      | Some (True, st') \<Rightarrow> (\<exists>new. solved_from (matrix st) (solution st) st' new)
      | Some (False, st') \<Rightarrow> st' = st\<lparr>cycles := cycles st'\<rparr> \<and>
          (\<forall>g. is_solution g \<longrightarrow> extends (matrix st) g \<longrightarrow> g r c \<notin> set ns))"

section \<open>Lemmas\<close>

lemma solution_distinct_unit:
  "is_solution g \<Longrightarrow> ps \<in> set units \<Longrightarrow> p \<in> set ps \<Longrightarrow> q \<in> set ps \<Longrightarrow> p \<noteq> q \<Longrightarrow>
   g (fst p) (snd p) \<noteq> g (fst q) (snd q)"
  unfolding is_solution_def
  by (auto simp: distinct_map inj_on_def case_prod_beta)

lemma solution_legal:
  assumes "is_solution g" "extends m g" "r < 9" "c < 9" "\<not> filled m (r, c)"
  shows "g r c \<in> legal m r c"
proof -
  have num: "g r c \<in> numbers"
    using assms(1,3,4) by (auto simp: is_solution_def set_cells)
  have "g r c \<notin> unit_digits m ps" if ps: "ps \<in> set units" "(r, c) \<in> set ps" for ps
  proof
    assume "g r c \<in> unit_digits m ps"
    then obtain q where q: "q \<in> set ps" "filled m q" "digit m q = g r c"
      by (auto simp: unit_digits_def)
    have "q \<in> set cells"
      using units_cases [OF ps(1)] q(1) by (cases q) (auto simp: set_cells)
    with assms(2) q have gq: "g (fst q) (snd q) = g r c"
      by (cases q) (auto simp: extends_def)
    have "q \<noteq> (r, c)" using q(2) assms(5) by auto
    with solution_distinct_unit [OF assms(1) ps(1) ps(2) q(1)] gq show False by simp
  qed
  from this [OF unit_cells_in_units(1) [OF assms(3)]] this [OF unit_cells_in_units(2) [OF assms(4)]]
    this [OF unit_cells_in_units(3) [OF quadrantNumber_lt [OF assms(3,4)]]] num assms(3,4)
  show ?thesis by (simp add: legal_def)
qed

lemma extends_fill:
  assumes "wf_grid m" "r < 9" "c < 9" "\<not> filled m (r, c)"
  shows "extends (set2 m r c (Key n)) g = (extends m g \<and> g r c = n)"
proof -
  let ?m' = "set2 m r c (Key n)"
  note rng = wf_grid_in_range [OF assms(1-3)]
  have fill: "filled ?m' p = (p = (r, c) \<or> filled m p)" for p
    using rng by (auto simp: cell_simps)
  have dig: "filled m p \<Longrightarrow> digit ?m' p = digit m p" for p
    using rng assms(4) by (auto simp: cell_simps)
  have dig0: "digit ?m' (r, c) = n"
    using rng by (simp add: cell_simps)
  have rc: "(r, c) \<in> set cells" using assms(2,3) by (simp add: set_cells)
  show ?thesis
    unfolding extends_def using fill dig dig0 rc assms(4)
    by (smt (verit) case_prodI2 case_prod_conv)
qed

lemma inv_cycles [simp]: "inv (st\<lparr>cycles := k\<rparr>) = inv st"
  by (simp add: inv_defs)

lemma calcOptions_cycles [simp]: "calcOptions (st\<lparr>cycles := k\<rparr>) r c = calcOptions st r c"
  by (simp add: calcOptions_def)

lemma unallocate_cycles:
  "unallocate v r c (st\<lparr>cycles := k\<rparr>) = (unallocate v r c st)\<lparr>cycles := k\<rparr>"
  by (simp add: unallocate_def Let_def getQuadrant_def)

lemma calcOptions_finite:
  "inv st \<Longrightarrow> r < 9 \<Longrightarrow> c < 9 \<Longrightarrow> finite (calcOptions st r c)"
  by (simp add: calcOptions_legal legal_def numbers_def)

lemma calcOptions_card:
  "inv st \<Longrightarrow> r < 9 \<Longrightarrow> c < 9 \<Longrightarrow> card (calcOptions st r c) < 10"
proof -
  assume "inv st" "r < 9" "c < 9"
  then have "calcOptions st r c \<subseteq> {1..9}"
    by (auto simp: calcOptions_legal legal_def numbers_def)
  then have "card (calcOptions st r c) \<le> card {1..(9::nat)}"
    by (rule card_mono [rotated]) simp
  then show ?thesis by simp
qed

lemma scan_order_wf: "wf_grid (matrix st) \<Longrightarrow> set (scan_order st) = set cells"
  by (auto simp: scan_order_def row_order_def wf_grid_def set_cells)

lemma next_cell_Some:
  assumes "inv st" "determineNextCell st = Some (r, c)"
  shows "r < 9 \<and> c < 9 \<and> \<not> filled (matrix st) (r, c) \<and> (r, c) \<notin> fixed st \<and>
         calcOptions st r c \<noteq> {}"
proof -
  have wf: "wf_grid (matrix st)" using assms(1) by (simp add: inv_def)
  from assms(2) have "pick (single st) (selectable st) (scan_order st) None = Some (r, c)"
    by (simp add: determineNextCell_spec_eq next_cell_spec_def)
  from pick_result [OF this single_selectable]
  have "(r, c) \<in> set (scan_order st)" "selectable st (r, c)" by simp_all
  then show ?thesis
    using scan_order_wf [OF wf] by (auto simp: selectable_def set_cells isFixed_def filled_def)
qed

lemma next_cell_None:
  assumes "inv st" "determineNextCell st = None" "r < 9" "c < 9" "\<not> filled (matrix st) (r, c)"
  shows "calcOptions st r c = {}"
proof -
  have wf: "wf_grid (matrix st)" and fx: "fixed_ok st" using assms(1) by (simp_all add: inv_def)
  from assms(2) have "pick (single st) (selectable st) (scan_order st) None = None"
    by (simp add: determineNextCell_spec_eq next_cell_spec_def)
  then have "filter (selectable st) (scan_order st) = []"
    by (simp add: pick_def split: option.splits if_splits)
  moreover have "(r, c) \<in> set (scan_order st)"
    using scan_order_wf [OF wf] assms(3,4) by (simp add: set_cells)
  ultimately have "\<not> selectable st (r, c)" by (simp add: filter_empty_conv)
  moreover have "(r, c) \<notin> fixed st" using fx assms(5) by (auto simp: fixed_ok_def)
  ultimately show ?thesis
    using assms(5) calcOptions_card [OF assms(1,3,4)] calcOptions_finite [OF assms(1,3,4)]
    by (auto simp: selectable_def isFixed_def filled_def)
qed

lemma filled_empty_count:
  "length (filter (filled m) cells) + empty_cells m = 81"
  using sum_length_filter_compl [of "filled m" cells] by (simp add: empty_cells_def length_cells)

lemma all_filled:
  "length (filter (filled m) cells) = 81 \<Longrightarrow> p \<in> set cells \<Longrightarrow> filled m p"
  using length_filter_less [of p cells "filled m"] by (auto simp: length_cells)

lemma empty_cells_fill:
  "wf_grid m \<Longrightarrow> r < 9 \<Longrightarrow> c < 9 \<Longrightarrow> \<not> filled m (r, c) \<Longrightarrow> v \<noteq> Null \<Longrightarrow>
   Suc (empty_cells (set2 m r c v)) = empty_cells m"
  using count_fill [of m r c v] filled_empty_count [of m] filled_empty_count [of "set2 m r c v"]
  by simp

lemma final_allocation:
  assumes "inv st" "r < 9" "c < 9" "\<not> filled (matrix st) (r, c)" "n \<in> calcOptions st r c"
    "allocate (Key n) r c st = Inl (e, st1)"
  shows "solved_from (matrix st) (solution st)
           (st1\<lparr>solution := solution st1 @ [Step (Key n) r c]\<rparr>) [Step (Key n) r c]"
proof -
  let ?m = "matrix st" and ?m' = "set2 (matrix st) r c (Key n)"
  have wf: "wf_grid ?m" and cons: "consistent ?m" and cnt: "count_ok st"
    using assms(1) by (simp_all add: inv_def)
  note rng = wf_grid_in_range [OF wf assms(2,3)]
  have leg: "n \<in> legal ?m r c" using assms(5) calcOptions_legal [OF assms(1-3)] by simp
  from assms(6) have a81: "allocated st + 1 = 81"
    and st1: "st1 = st\<lparr>cycles := Suc (cycles st), matrix := ?m', allocated := allocated st + 1\<rparr>"
    by (simp_all add: allocate_Inl)
  have f80: "length (filter (filled ?m) cells) = 80" using a81 cnt by (simp add: count_ok_def)
  have f81: "length (filter (filled ?m') cells) = 81"
    using count_fill [OF wf assms(2-4), of "Key n"] f80 by simp
  have "wf_grid ?m'"
    using wf_grid_set2 [OF wf assms(2,3)] legal_numbers [OF leg] by (simp add: numbers_def)
  moreover have "consistent ?m'"
    using consistent_fill [OF wf cons assms(2-4), of "Key n"] leg by simp
  moreover have "\<forall>p \<in> set cells. filled ?m' p" using all_filled [OF f81] by blast
  moreover have "\<forall>p \<in> set cells. filled ?m p \<longrightarrow> cellv ?m' (fst p) (snd p) = cellv ?m (fst p) (snd p)"
    using rng assms(4) by (auto simp: cell_simps filled_def)
  moreover have "empty_cells ?m = 1" using f80 filled_empty_count [of ?m] by simp
  ultimately show ?thesis using st1 assms(2-4) by (simp add: solved_from_def set_cells)
qed

lemma solved_from_step:
  assumes "wf_grid m" "r < 9" "c < 9" "\<not> filled m (r, c)"
    "solved_from (set2 m r c (Key n)) sol st2 new"
  shows "solved_from m sol (st2\<lparr>solution := solution st2 @ [Step (Key n) r c]\<rparr>)
           (new @ [Step (Key n) r c])"
proof -
  note rng = wf_grid_in_range [OF assms(1-3)]
  have keep: "filled m p \<Longrightarrow> filled (set2 m r c (Key n)) p \<and>
      cellv (set2 m r c (Key n)) (fst p) (snd p) = cellv m (fst p) (snd p)" for p
    using rng assms(4) by (auto simp: cell_simps filled_def)
  have "Suc (empty_cells (set2 m r c (Key n))) = empty_cells m"
    by (rule empty_cells_fill [OF assms(1-4)]) simp
  with assms(2-5) keep show ?thesis
    by (auto simp: solved_from_def set_cells)
qed

lemma some_empty_cell:
  assumes "inv st" "allocated st \<noteq> 81"
  obtains r c where "r < 9" "c < 9" "\<not> filled (matrix st) (r, c)"
proof -
  have "\<not> (\<forall>p \<in> set cells. filled (matrix st) p)"
  proof
    assume "\<forall>p \<in> set cells. filled (matrix st) p"
    then have "filter (filled (matrix st)) cells = cells" by simp
    with assms show False by (simp add: inv_def count_ok_def length_cells)
  qed
  then show ?thesis using that by (auto simp: set_cells)
qed

lemma solveCell_step_ok:
  assumes inv: "inv st" and a: "allocated st \<noteq> 81"
    and IH: "\<And>r c. determineNextCell st = Some (r, c) \<Longrightarrow>
       r < 9 \<Longrightarrow> c < 9 \<Longrightarrow> \<not> filled (matrix st) (r, c) \<Longrightarrow> (r, c) \<notin> fixed st \<Longrightarrow>
       set (sorted_list_of_set (calcOptions st r c)) \<subseteq> calcOptions st r c \<Longrightarrow>
       try_ok st r c (sorted_list_of_set (calcOptions st r c))
         (tryNumbers f r c (sorted_list_of_set (calcOptions st r c)) st)"
  shows "search_ok st (solveCell (Suc f) st)"
proof (cases "determineNextCell st")
  case None
  obtain r c where rc: "r < 9" "c < 9" "\<not> filled (matrix st) (r, c)"
    using some_empty_cell [OF inv a] .
  have "\<not> extends (matrix st) g" if "is_solution g" for g
    using solution_legal [OF that _ rc] next_cell_None [OF inv None rc]
      calcOptions_legal [OF inv rc(1,2)] by auto
  with None show ?thesis by (simp add: search_ok_def)
next
  case (Some p)
  then obtain r c where rc: "determineNextCell st = Some (r, c)" by (cases p) auto
  note facts = next_cell_Some [OF inv rc]
  have fin: "finite (calcOptions st r c)" using calcOptions_finite [OF inv] facts by simp
  have T: "try_ok st r c (sorted_list_of_set (calcOptions st r c))
         (tryNumbers f r c (sorted_list_of_set (calcOptions st r c)) st)"
    using IH [OF rc] facts fin by simp
  have leg: "g r c \<in> calcOptions st r c" if "is_solution g" "extends (matrix st) g" for g
    using solution_legal [OF that] facts calcOptions_legal [OF inv] by simp
  show ?thesis
    using T leg fin rc
    by (auto simp: search_ok_def try_ok_def split: option.splits bool.splits)
qed

lemma tryNumbers_step_ok:
  assumes inv: "inv st" and rc: "r < 9" "c < 9" "\<not> filled (matrix st) (r, c)" "(r, c) \<notin> fixed st"
    and sub: "set (n # ns) \<subseteq> calcOptions st r c"
    and IH1: "\<And>st1. allocate (Key n) r c st = Inr st1 \<Longrightarrow> inv st1 \<Longrightarrow> allocated st1 \<noteq> 81 \<Longrightarrow>
       search_ok st1 (solveCell f st1)"
    and IH2: "\<And>st1 st2. allocate (Key n) r c st = Inr st1 \<Longrightarrow> solveCell f st1 = Some (False, st2) \<Longrightarrow>
       inv (unallocate (Key n) r c st2) \<Longrightarrow> r < 9 \<Longrightarrow> c < 9 \<Longrightarrow>
       \<not> filled (matrix (unallocate (Key n) r c st2)) (r, c) \<Longrightarrow>
       (r, c) \<notin> fixed (unallocate (Key n) r c st2) \<Longrightarrow>
       set ns \<subseteq> calcOptions (unallocate (Key n) r c st2) r c \<Longrightarrow>
       try_ok (unallocate (Key n) r c st2) r c ns (tryNumbers f r c ns (unallocate (Key n) r c st2))"
  shows "try_ok st r c (n # ns) (tryNumbers f r c (n # ns) st)"
proof (cases "allocate (Key n) r c st")
  case (Inl a)
  then obtain e st1 where al: "allocate (Key n) r c st = Inl (e, st1)" by (cases a) auto
  have "n \<in> calcOptions st r c" using sub by simp
  from final_allocation [OF inv rc(1-3) this al] al show ?thesis
    by (auto simp: try_ok_def)
next
  case (Inr st1)
  have n: "key (Key n) \<in> calcOptions st r c" using sub by simp
  have inv1: "inv st1" using allocate_inv [OF inv rc(1-3) _ n Inr] by simp
  have st1: "matrix st1 = set2 (matrix st) r c (Key n)" "solution st1 = solution st"
    "allocated st1 = allocated st + 1" "allocated st + 1 \<noteq> 81"
    using Inr by (simp_all add: allocate_Inr)
  have S: "search_ok st1 (solveCell f st1)" using IH1 [OF Inr inv1] st1 by simp
  have wf: "wf_grid (matrix st)" using inv by (simp add: inv_def)
  show ?thesis
  proof (cases "solveCell f st1")
    case None
    with Inr show ?thesis by (simp add: try_ok_def)
  next
    case (Some res)
    then obtain b st2 where sc: "solveCell f st1 = Some (b, st2)" by (cases res) auto
    show ?thesis
    proof (cases b)
      case True
      with S sc obtain new where "solved_from (set2 (matrix st) r c (Key n)) (solution st) st2 new"
        by (auto simp: search_ok_def st1)
      from solved_from_step [OF wf rc(1-3) this] Inr sc True show ?thesis
        by (auto simp: try_ok_def)
    next
      case False
      with S sc have st2: "st2 = st1\<lparr>cycles := cycles st2\<rparr>"
        and none: "\<And>g. is_solution g \<Longrightarrow> \<not> extends (set2 (matrix st) r c (Key n)) g"
        by (auto simp: search_ok_def st1)
      have st3: "unallocate (Key n) r c st2 = st\<lparr>cycles := cycles st2\<rparr>"
        using allocate_unallocate [OF inv rc(1-3) _ n Inr] unallocate_cycles [where st = st1]
        by (subst st2) simp
      have T: "try_ok (st\<lparr>cycles := cycles st2\<rparr>) r c ns
          (tryNumbers f r c ns (st\<lparr>cycles := cycles st2\<rparr>))"
        using IH2 [OF Inr, of st2] sc False st3 inv rc sub by simp
      have "g r c \<noteq> n" if "is_solution g" "extends (matrix st) g" for g
        using none [OF that(1)] extends_fill [OF wf rc(1-3)] that(2) by blast
      with T Inr sc False st3 show ?thesis
        by (auto simp: try_ok_def split: option.splits bool.splits)
    qed
  qed
qed

lemma search_correct:
  "inv st \<Longrightarrow> allocated st \<noteq> 81 \<Longrightarrow> search_ok st (solveCell f st)"
  "inv st \<Longrightarrow> r < 9 \<Longrightarrow> c < 9 \<Longrightarrow> \<not> filled (matrix st) (r, c) \<Longrightarrow> (r, c) \<notin> fixed st \<Longrightarrow>
   set ns \<subseteq> calcOptions st r c \<Longrightarrow> try_ok st r c ns (tryNumbers f r c ns st)"
proof (induction f st and f r c ns st rule: solveCell_tryNumbers.induct)
  case (1 st)
  then show ?case by (simp add: search_ok_def)
next
  case (2 f st)
  show ?case
    using "2.IH" [OF _ refl "2.prems"(1)] by (rule solveCell_step_ok [OF "2.prems"])
next
  case (3 f r c st)
  then show ?case by (simp add: try_ok_def)
next
  case (4 f r c n ns st)
  show ?case
    using "4.IH"(1) "4.IH"(2) [OF _ _ refl refl] by (rule tryNumbers_step_ok [OF "4.prems"])
qed

lemma units_subset_cells: "ps \<in> set units \<Longrightarrow> set ps \<subseteq> set cells"
  using units_cases [of ps] by (auto simp: set_cells)

lemma search_fuel:
  "inv st \<Longrightarrow> empty_cells (matrix st) < f \<Longrightarrow> solveCell f st \<noteq> None"
  "inv st \<Longrightarrow> r < 9 \<Longrightarrow> c < 9 \<Longrightarrow> \<not> filled (matrix st) (r, c) \<Longrightarrow> (r, c) \<notin> fixed st \<Longrightarrow>
   set ns \<subseteq> calcOptions st r c \<Longrightarrow> empty_cells (matrix st) \<le> f \<Longrightarrow>
   tryNumbers f r c ns st \<noteq> None"
proof (induction f st and f r c ns st rule: solveCell_tryNumbers.induct)
  case (1 st)
  then show ?case by simp
next
  case (2 f st)
  show ?case
  proof (cases "determineNextCell st")
    case None
    then show ?thesis by simp
  next
    case (Some p)
    then obtain r c where rc: "determineNextCell st = Some (r, c)" by (cases p) auto
    note facts = next_cell_Some [OF "2.prems"(1) rc]
    have "finite (calcOptions st r c)" using calcOptions_finite [OF "2.prems"(1)] facts by simp
    then have "tryNumbers f r c (sorted_list_of_set (calcOptions st r c)) st \<noteq> None"
      using "2.IH" [OF rc refl] "2.prems" facts by simp
    with rc show ?thesis by simp
  qed
next
  case (3 f r c st)
  then show ?case by simp
next
  case (4 f r c n ns st)
  note inv = "4.prems"(1) and rc = "4.prems"(2-5)
  have wf: "wf_grid (matrix st)" using inv by (simp add: inv_def)
  show ?case
  proof (cases "allocate (Key n) r c st")
    case (Inl a)
    then show ?thesis by (cases a) simp
  next
    case (Inr st1)
    have n: "key (Key n) \<in> calcOptions st r c" using "4.prems"(6) by simp
    have inv1: "inv st1" using allocate_inv [OF inv rc(1-3) _ n Inr] by simp
    have m1: "matrix st1 = set2 (matrix st) r c (Key n)" and a1: "allocated st1 \<noteq> 81"
      using Inr by (simp_all add: allocate_Inr)
    have "Suc (empty_cells (matrix st1)) = empty_cells (matrix st)"
      using empty_cells_fill [OF wf rc(1-3)] m1 by simp
    then have "empty_cells (matrix st1) < f" using "4.prems"(7) by simp
    then obtain b st2 where sc: "solveCell f st1 = Some (b, st2)"
      using "4.IH"(1) [OF Inr inv1] by fastforce
    show ?thesis
    proof (cases b)
      case True
      with Inr sc show ?thesis by simp
    next
      case False
      with search_correct(1) [OF inv1 a1, where f = f] sc have st2: "st2 = st1\<lparr>cycles := cycles st2\<rparr>"
        by (simp add: search_ok_def)
      have st3: "unallocate (Key n) r c st2 = st\<lparr>cycles := cycles st2\<rparr>"
        using allocate_unallocate [OF inv rc(1-3) _ n Inr] unallocate_cycles [where st = st1]
        by (subst st2) simp
      have "tryNumbers f r c ns (unallocate (Key n) r c st2) \<noteq> None"
        using "4.IH"(2) [OF Inr sc refl] False st3 "4.prems" by simp
      with Inr sc False show ?thesis by simp
    qed
  qed
qed

lemma complete_grid_solution:
  assumes "wf_grid m" "consistent m" "\<forall>p \<in> set cells. filled m p"
  shows "is_solution (grid_of m)"
proof -
  have "grid_of m r c \<in> numbers" if "r < 9" "c < 9" for r c
    using wf_grid_wf_val [OF assms(1) that] assms(3) that
    by (cases "cellv m r c") (auto simp: grid_of_def digit_def filled_def numbers_def set_cells)
  moreover have "distinct (map (\<lambda>(r, c). grid_of m r c) ps)" if "ps \<in> set units" for ps
  proof -
    have "\<forall>p \<in> set ps. filled m p"
      using assms(3) units_subset_cells [OF that] by blast
    then have "filter (filled m) ps = ps" by simp
    moreover have "distinct (map (digit m) (filter (filled m) ps))"
      using assms(2) that by (simp add: consistent_def)
    ultimately show ?thesis
      by (simp add: grid_of_def case_prod_beta')
  qed
  ultimately show ?thesis by (auto simp: is_solution_def set_cells)
qed

lemma solved_from_extends:
  "solved_from m sol st' new \<Longrightarrow> extends m (grid_of (matrix st'))"
  by (auto simp: solved_from_def extends_def grid_of_def digit_def)

lemma unallocate_fixed [simp]: "fixed (unallocate v r c st) = fixed st"
  by (simp add: unallocate_def Let_def)

lemma unallocate_solution [simp]: "solution (unallocate v r c st) = solution st"
  by (simp add: unallocate_def Let_def)

lemma allocate_frame:
  "allocate v r c st = Inr st' \<Longrightarrow> fixed st' = fixed st \<and> solution st' = solution st"
  "allocate v r c st = Inl (e, st') \<Longrightarrow> fixed st' = fixed st \<and> solution st' = solution st"
  by (auto simp: allocate_Inr allocate_Inl updateOptions_def Let_def)

text \<open>The search keeps the fixed cells and only appends to the trace, from any state.\<close>

lemma search_frame:
  "solveCell f st = Some (b, st') \<Longrightarrow> fixed st' = fixed st \<and> (\<exists>new. solution st' = solution st @ new)"
  "tryNumbers f r c ns st = Some (b, st') \<Longrightarrow> fixed st' = fixed st \<and> (\<exists>new. solution st' = solution st @ new)"
proof (induction f st and f r c ns st arbitrary: b st' and b st' rule: solveCell_tryNumbers.induct)
  case (1 st)
  then show ?case by simp
next
  case (2 f st)
  then show ?case by (auto split: option.splits)
next
  case (3 f r c st)
  then show ?case by simp
next
  case (4 f r c n ns st)
  show ?case
  proof (cases "allocate (Key n) r c st")
    case (Inl a)
    then obtain e st1 where al: "allocate (Key n) r c st = Inl (e, st1)" by (cases a) simp
    then have "st' = st1\<lparr>solution := solution st1 @ [Step (Key n) r c]\<rparr>"
      using "4.prems" by simp
    with allocate_frame(2) [OF al] show ?thesis by simp
  next
    case (Inr st1)
    note f1 = allocate_frame(1) [OF Inr]
    show ?thesis
    proof (cases "solveCell f st1")
      case None
      then show ?thesis using "4.prems" Inr by simp
    next
      case (Some res)
      then obtain b2 st2 where sc: "solveCell f st1 = Some (b2, st2)" by (cases res) auto
      obtain new2 where f2: "fixed st2 = fixed st1" "solution st2 = solution st1 @ new2"
        using "4.IH"(1) [OF Inr sc] by blast
      show ?thesis
      proof (cases b2)
        case True
        then show ?thesis using "4.prems" Inr sc f1 f2 by auto
      next
        case False
        then have "tryNumbers f r c ns (unallocate (Key n) r c st2) = Some (b, st')"
          using "4.prems" Inr sc by simp
        with "4.IH"(2) [OF Inr sc refl] False f1 f2 show ?thesis by auto
      qed
    qed
  qed
qed

lemma solve_frame: "solve st = Some (b, st') \<Longrightarrow> \<exists>new. solution st' = solution st @ new"
  using search_frame(1) [of 82 st b st'] by (simp add: solve_def)

lemma unallocate_matrix [simp]: "matrix (unallocate v r c st) = set2 (matrix st) r c Null"
  by (simp add: unallocate_def Let_def)

lemma next_cell_empty:
  "determineNextCell st = Some (r, c) \<Longrightarrow> cellv (matrix st) r c = Null"
proof -
  assume "determineNextCell st = Some (r, c)"
  then have "pick (single st) (selectable st) (scan_order st) None = Some (r, c)"
    by (simp add: determineNextCell_spec_eq next_cell_spec_def)
  from pick_result [OF this single_selectable] show ?thesis by (simp add: selectable_def)
qed

text \<open>From any state, consistent or not, the search never changes a cell that was
  filled when it started: it only writes the empty cells it picks, and clears only
  those.\<close>

lemma search_keeps_filled:
  "solveCell f st = Some (b, st') \<Longrightarrow> cellv (matrix st) i j \<noteq> Null \<Longrightarrow>
     cellv (matrix st') i j = cellv (matrix st) i j"
  "tryNumbers f r c ns st = Some (b, st') \<Longrightarrow> cellv (matrix st) r c = Null \<Longrightarrow>
     cellv (matrix st) i j \<noteq> Null \<Longrightarrow> cellv (matrix st') i j = cellv (matrix st) i j"
proof (induction f st and f r c ns st arbitrary: b st' and b st' rule: solveCell_tryNumbers.induct)
  case (1 st)
  then show ?case by simp
next
  case (2 f st)
  show ?case
  proof (cases "determineNextCell st")
    case None
    then show ?thesis using "2.prems" by simp
  next
    case (Some p)
    obtain r c where p: "p = (r, c)" by (cases p)
    have t: "tryNumbers f r c (sorted_list_of_set (calcOptions st r c)) st = Some (b, st')"
      using "2.prems"(1) Some p by simp
    show ?thesis
      using "2.IH" [OF Some p [symmetric] t next_cell_empty [OF Some [unfolded p]] "2.prems"(2)] .
  qed
next
  case (3 f r c st)
  then show ?case by simp
next
  case (4 f r c n ns st)
  have ij: "(i, j) \<noteq> (r, c)" using "4.prems"(2,3) by auto
  then have keep: "cellv (set2 m r c v) i j = cellv m i j" for m v
    by (auto simp: cellv_set2)
  show ?case
  proof (cases "allocate (Key n) r c st")
    case (Inl a)
    obtain e st1 where al: "allocate (Key n) r c st = Inl (e, st1)" using Inl by (cases a) simp
    then have "st' = st1\<lparr>solution := solution st1 @ [Step (Key n) r c]\<rparr>"
      using "4.prems"(1) by simp
    with al show ?thesis by (simp add: allocate_Inl keep)
  next
    case (Inr st1)
    have m1: "matrix st1 = set2 (matrix st) r c (Key n)" using Inr by (simp add: allocate_Inr)
    have c1: "cellv (matrix st1) i j = cellv (matrix st) i j" using m1 keep by simp
    show ?thesis
    proof (cases "solveCell f st1")
      case None
      then show ?thesis using "4.prems"(1) Inr by simp
    next
      case (Some res)
      then obtain b2 st2 where sc: "solveCell f st1 = Some (b2, st2)" by (cases res) auto
      have c2: "cellv (matrix st2) i j = cellv (matrix st) i j"
        using "4.IH"(1) [OF Inr sc] c1 "4.prems"(3) by simp
      show ?thesis
      proof (cases b2)
        case True
        then show ?thesis using "4.prems"(1) Inr sc c2 by auto
      next
        case False
        then have t: "tryNumbers f r c ns (unallocate (Key n) r c st2) = Some (b, st')"
          using "4.prems"(1) Inr sc by simp
        have cl: "cellv (matrix (unallocate (Key n) r c st2)) r c = Null"
          by (simp only: unallocate_matrix cellv_set2) (auto simp: cellv_def js_at_def)
        have u: "cellv (matrix (unallocate (Key n) r c st2)) i j = cellv (matrix st) i j"
          using keep c2 by simp
        have bf: "b2 = False" using False by simp
        with "4.IH"(2) [OF Inr sc refl bf t cl] u "4.prems"(3) show ?thesis by simp
      qed
    qed
  qed
qed

lemma solve_keeps_filled:
  "solve st = Some (b, st') \<Longrightarrow> cellv (matrix st) i j \<noteq> Null \<Longrightarrow>
     cellv (matrix st') i j = cellv (matrix st) i j"
  using search_keeps_filled(1) [of 82 st b st' i j] by (simp add: solve_def)

lemma replay_cell:
  "cellv (replay ss m) r c \<noteq> cellv m r c \<Longrightarrow> \<exists>v. Step v r c \<in> set ss \<and> cellv (replay ss m) r c = v"
proof (induction ss arbitrary: m)
  case Nil
  then show ?case by simp
next
  case (Cons s ss)
  obtain v r' c' where s: "s = Step v r' c'" by (cases s) auto
  show ?case
  proof (cases "cellv (replay ss (set2 m r' c' v)) r c = cellv (set2 m r' c' v) r c")
    case True
    with Cons.prems s have "cellv (set2 m r' c' v) r c \<noteq> cellv m r c" by simp
    then have "r = r' \<and> c = c' \<and> cellv (set2 m r' c' v) r c = v"
      by (simp add: cell_simps split: if_splits)
    with True s show ?thesis by auto
  next
    case False
    from Cons.IH [OF False] s show ?thesis by auto
  qed
qed

lemma length_units: "ps \<in> set units \<Longrightarrow> length ps = 9"
proof -
  have "list_all (\<lambda>ps. length ps = 9) units" by code_simp
  then show "ps \<in> set units \<Longrightarrow> length ps = 9" by (simp add: list_all_iff)
qed

lemma solution_unit_numbers:
  assumes "is_solution g" "ps \<in> set units"
  shows "(\<lambda>p. g (fst p) (snd p)) ` set ps = numbers"
proof (rule card_subset_eq)
  show "finite numbers" by (simp add: numbers_def)
  have "set ps \<subseteq> set cells" by (rule units_subset_cells [OF assms(2)])
  then show "(\<lambda>p. g (fst p) (snd p)) ` set ps \<subseteq> numbers"
    using assms(1) unfolding is_solution_def by fastforce
  have "distinct (map (\<lambda>(r, c). g r c) ps)" using assms by (simp add: is_solution_def)
  then have "distinct (map (\<lambda>p. g (fst p) (snd p)) ps)" by (simp add: case_prod_beta')
  then have "card (set (map (\<lambda>p. g (fst p) (snd p)) ps)) = length (map (\<lambda>p. g (fst p) (snd p)) ps)"
    by (rule distinct_card)
  then have "card ((\<lambda>p. g (fst p) (snd p)) ` set ps) = length ps" by simp
  then show "card ((\<lambda>p. g (fst p) (snd p)) ` set ps) = card numbers"
    using length_units [OF assms(2)] by (simp add: numbers_def)
qed

lemma solve_success:
  assumes "inv st" "allocated st \<noteq> 81" "solve st = Some (True, st')"
  shows "\<exists>new. solved_from (matrix st) (solution st) st' new \<and> fixed st' = fixed st"
  using search_correct(1) [OF assms(1,2), where f = 82] search_frame(1) [of 82 st True st'] assms(3)
  by (auto simp: search_ok_def solve_def)

lemma solve_some:
  "inv st \<Longrightarrow> \<exists>b st'. solve st = Some (b, st')"
proof -
  assume inv: "inv st"
  have "empty_cells (matrix st) \<le> 81"
    using filled_empty_count [of "matrix st"] by linarith
  then have "solveCell 82 st \<noteq> None" using search_fuel(1) [OF inv] by simp
  then show ?thesis by (auto simp: solve_def)
qed

lemma solve_outcome:
  assumes "inv st" "allocated st \<noteq> 81"
  shows "\<exists>b st'. solve st = Some (b, st') \<and> (b = (\<exists>g. is_solution g \<and> extends (matrix st) g)) \<and>
           (b \<longrightarrow> is_solution (grid_of (matrix st')) \<and> extends (matrix st) (grid_of (matrix st')))"
proof -
  obtain b st' where r: "solve st = Some (b, st')" using solve_some [OF assms(1)] by blast
  have ok: "search_ok st (Some (b, st'))"
    using search_correct(1) [OF assms, where f = 82] r by (simp add: solve_def)
  show ?thesis
  proof (cases b)
    case True
    with ok obtain new where s: "solved_from (matrix st) (solution st) st' new"
      by (auto simp: search_ok_def)
    then have "wf_grid (matrix st')" "consistent (matrix st')" "\<forall>p \<in> set cells. filled (matrix st') p"
      unfolding solved_from_def by blast+
    then have "is_solution (grid_of (matrix st'))" by (rule complete_grid_solution)
    with r True solved_from_extends [OF s] show ?thesis by blast
  next
    case False
    with ok r show ?thesis by (auto simp: search_ok_def)
  qed
qed

section \<open>Properties of the search\<close>

text \<open>C1. Soundness: from a consistent state with an empty cell, when \<open>solve\<close>
  reports success the matrix is a complete Sudoku solution that keeps every cell
  that was filled before the search.\<close>

theorem solve_sound:
  assumes "inv st" "allocated st \<noteq> 81" "solve st = Some (True, st')"
  shows "is_solution (grid_of (matrix st')) \<and> extends (matrix st) (grid_of (matrix st')) \<and>
         (\<forall>(r, c) \<in> set cells. filled (matrix st) (r, c) \<longrightarrow>
            cellv (matrix st') r c = cellv (matrix st) r c)"
proof -
  from search_correct(1) [OF assms(1,2), where f = 82] assms(3)
  obtain new where s: "solved_from (matrix st) (solution st) st' new"
    by (auto simp: search_ok_def solve_def)
  then have "wf_grid (matrix st')" "consistent (matrix st')" "\<forall>p \<in> set cells. filled (matrix st') p"
    unfolding solved_from_def by blast+
  then have "is_solution (grid_of (matrix st'))"
    by (rule complete_grid_solution)
  with s solved_from_extends [OF s] show ?thesis
    by (auto simp: solved_from_def)
qed

text \<open>C2. Completeness of failure: when \<open>solve\<close> reports failure, no Sudoku
  solution agrees with the filled cells, and the state is as before the search
  except for the global call counter.\<close>

theorem solve_complete:
  assumes "inv st" "allocated st \<noteq> 81" "solve st = Some (False, st')"
  shows "(\<forall>g. is_solution g \<longrightarrow> \<not> extends (matrix st) g) \<and> st' = st\<lparr>cycles := cycles st'\<rparr>"
  using search_correct(1) [OF assms(1,2), where f = 82] assms(3)
  by (auto simp: search_ok_def solve_def)

text \<open>C3. The search finds a solution whenever one exists: if some Sudoku solution
  agrees with the filled cells of a consistent state, \<open>solve\<close> reports success.\<close>

theorem solve_finds_solution:
  assumes "inv st" "allocated st \<noteq> 81" "is_solution g" "extends (matrix st) g"
  shows "\<exists>st'. solve st = Some (True, st')"
proof -
  obtain b st' where r: "solve st = Some (b, st')" using solve_some [OF assms(1)] by blast
  have b
  proof (rule ccontr)
    assume "\<not> b"
    with r search_correct(1) [OF assms(1,2), where f = 82] have "\<not> extends (matrix st) g"
      using assms(3) by (auto simp: search_ok_def solve_def)
    with assms(4) show False by simp
  qed
  with r show ?thesis by simp
qed

text \<open>C4. Termination: from every state satisfying the invariant, \<open>solve\<close>
  returns (the fuel of 82 nested calls is never exhausted).\<close>

theorem solve_terminates:
  assumes "inv st"
  shows "\<exists>res. solve st = Some res"
  using solve_some [OF assms] by blast

text \<open>C9. The trace: on success, \<open>solve\<close> appends one step per empty cell to
  \<open>solution\<close>, deepest first, and replaying the new steps in reverse order (as
  \<open>animate\<close> does) on the grid before the search rebuilds the solved grid.\<close>

theorem solve_trace:
  assumes "inv st" "allocated st \<noteq> 81" "solve st = Some (True, st')"
  shows "\<exists>new. solution st' = solution st @ new \<and> replay (rev new) (matrix st) = matrix st' \<and>
               length new = empty_cells (matrix st)"
  using search_correct(1) [OF assms(1,2), where f = 82] assms(3)
  by (auto simp: search_ok_def solve_def solved_from_def)

end
