(* ===== verification/Lifecycle.thy ===== *)
theory Lifecycle
  imports Engine
begin

text \<open>
  Loading a puzzle and editing a cell: \<open>init\<close> and \<open>updateCell\<close> of
  \<open>src/solver.js\<close>. \<open>init\<close> resets the solver, parses the string and allocates
  every given digit through the same \<open>allocate\<close> the search uses, marking its
  cell fixed; an \<open>allocate\<close> that reaches 81 throws out of \<open>init\<close>. The
  lemmas follow the cell loop with the invariant \<open>init_inv\<close> (the candidate sets
  account for the givens seen so far) and prove that loading a valid puzzle
  establishes \<open>inv\<close>, that 81 givens make it throw, that any non-empty string
  shorter than 81 characters is loaded without an error (the loop allocates exactly
  the truthy cells of any grid), that \<open>parse\<close> is inverted by printing on valid
  input, and the shape of \<open>parse\<close> on any input.
\<close>

section \<open>Operations\<close>

text \<open>A freshly constructed \<open>SudokuSolver\<close>: the constructor sets only the
  rendering fields; the solver fields start empty and \<open>cycles\<close> at 0.\<close>

definition new_solver :: solver where
  "new_solver = \<lparr>sudokuString = [], solution = [], matrix = [], allocated = 0, fixed = {},
     row = [], column = [], quadrant = [], cycles = 0\<rparr>"

text \<open>The loop of \<open>init\<close> over the cells, row by row: a truthy value is marked
  fixed and allocated; the exception of \<open>allocate\<close> propagates.\<close>

fun init_cells :: "coord list \<Rightarrow> solver \<Rightarrow> (exn \<times> solver) + solver" where
  "init_cells [] st = Inr st"
| "init_cells ((r, c) # ps) st =
     (let v = cellv (matrix st) r c in
      if truthy v then
        (case allocate v r c (st\<lparr>fixed := insert (r, c) (fixed st)\<rparr>) of
           Inl e \<Rightarrow> Inl e
         | Inr st' \<Rightarrow> init_cells ps st')
      else init_cells ps st)"

text \<open>\<open>init\<close>: the empty string stands for an omitted argument
  (\<open>sudokuString || prevSudoku\<close>). \<open>_updateAllOptions\<close> iterates over
  \<open>this.allOptions\<close>, which is never assigned, and does nothing; the rendering
  calls are not modelled.\<close>

definition init :: "string \<Rightarrow> solver \<Rightarrow> (exn \<times> solver) + solver" where
  "init s st =
     (let prev = sudokuString st;
          st1 = reset st;
          str = (if s = [] then prev else s);
          st2 = st1\<lparr>sudokuString := str, matrix := parse str\<rparr>
      in init_cells cells st2)"

text \<open>\<open>updateCell\<close>: retract the current value of a filled cell, then allocate
  the new one without checking that it is a candidate.\<close>

definition updateCell :: "val \<Rightarrow> nat \<Rightarrow> nat \<Rightarrow> solver \<Rightarrow> (exn \<times> solver) + solver" where
  "updateCell v r c st =
     (let st1 = (if cellv (matrix st) r c \<noteq> Null
                 then unallocate (cellv (matrix st) r c) r c st else st)
      in if v \<noteq> Null then allocate v r c st1 else Inr st1)"

section \<open>What loading promises\<close>

text \<open>A puzzle string as the page supplies it: 81 characters, each \<open>_\<close> or a digit
  1 to 9.\<close>

definition valid_char :: "char \<Rightarrow> bool" where
  "valid_char ch = (ch = CHR ''_'' \<or> ch \<in> set ''123456789'')"

definition valid_puzzle :: "string \<Rightarrow> bool" where
  "valid_puzzle s = (length s = 81 \<and> list_all valid_char s)"

definition given :: "coord list \<Rightarrow> coord list \<Rightarrow> coord list" where
  "given ds ps = filter (\<lambda>p. p \<in> set ds) ps"

definition init_inv :: "val list list \<Rightarrow> coord list \<Rightarrow> solver \<Rightarrow> bool" where
  "init_inv m ds st =
     (matrix st = m \<and> length (row st) = 9 \<and> length (column st) = 9 \<and> length (quadrant st) = 9 \<and>
      (\<forall>i \<in> set [0..<9].
         row st ! i = numbers - unit_digits m (given ds (row_cells i)) \<and>
         column st ! i = numbers - unit_digits m (given ds (col_cells i)) \<and>
         quadrant st ! i = numbers - unit_digits m (given ds (quad_cells i))) \<and>
      allocated st = int (length (filter (filled m) ds)) \<and> allocated st < 81 \<and>
      fixed st = {p \<in> set ds. filled m p} \<and> solution st = [])"

text \<open>Printing a grid back as a puzzle string, the inverse of \<open>parse\<close> on valid
  input.\<close>

definition print_val :: "val \<Rightarrow> char" where
  "print_val v = (case v of Null \<Rightarrow> CHR ''_''
                  | Num n \<Rightarrow> (if n < 10 then ''0123456789'' ! n else CHR ''?'')
                  | Key n \<Rightarrow> (if n < 10 then ''0123456789'' ! n else CHR ''?'')
                  | NaN \<Rightarrow> CHR ''?'')"

definition unparse :: "val list list \<Rightarrow> string" where
  "unparse m = concat (map (map print_val) m)"

section \<open>Lemmas on parsing and loading\<close>

lemma parse_length [simp]: "length (parse s) = 9"
  by (simp add: parse_def)

lemma parse_map: "parse s = map (\<lambda>r. map parse_char (take 9 (drop (r * 9) s))) [0..<9]"
  by (simp add: parse_def take_map drop_map)

lemma parse_char_valid: "valid_char ch \<Longrightarrow> wf_val (parse_char ch)"
  by (auto simp: valid_char_def parse_char_def)

lemma valid_puzzle_wf: "valid_puzzle s \<Longrightarrow> wf_grid (parse s)"
proof -
  assume v: "valid_puzzle s"
  then have len: "length s = 81" and chs: "\<And>ch. ch \<in> set s \<Longrightarrow> wf_val (parse_char ch)"
    using parse_char_valid unfolding valid_puzzle_def list_all_iff by blast+
  have "length xs = 9 \<and> (\<forall>w \<in> set xs. wf_val w)" if "xs \<in> set (parse s)" for xs
  proof -
    from that have "xs \<in> (\<lambda>r. map parse_char (take 9 (drop (r * 9) s))) ` {0..<9}"
      by (simp only: parse_map set_map set_upt)
    then obtain r where r: "r < 9" and xs: "xs = map parse_char (take 9 (drop (r * 9) s))"
      by auto
    have "length xs = 9" using r len xs by simp
    moreover have "set xs \<subseteq> parse_char ` set s"
      using xs by (auto dest: in_set_takeD in_set_dropD)
    ultimately show ?thesis using chs by blast
  qed
  then show ?thesis by (simp add: wf_grid_def)
qed

lemma wf_val_truthy: "wf_val v \<Longrightarrow> truthy v = (v \<noteq> Null)"
  by (cases v) auto

lemma unit_digits_given_snoc:
  "unit_digits m (given (ds @ [x]) ps) =
     (if x \<in> set ps \<and> filled m x then insert (digit m x) (unit_digits m (given ds ps))
      else unit_digits m (given ds ps))"
  by (auto simp: unit_digits_def given_def)

lemma init_inv_reset:
  "init_inv m [] ((reset st)\<lparr>sudokuString := s, matrix := m\<rparr>)"
  by (simp add: init_inv_def reset_def given_def unit_digits_def)

lemma init_inv_skip:
  assumes I: "init_inv m ds st" and e: "\<not> filled m (r, c)"
  shows "init_inv m (ds @ [(r, c)]) st"
proof -
  have "unit_digits m (given (ds @ [(r, c)]) ps) = unit_digits m (given ds ps)" for ps
    using e by (simp add: unit_digits_given_snoc)
  moreover have "{p \<in> set (ds @ [(r, c)]). filled m p} = {p \<in> set ds. filled m p}"
    using e by auto
  ultimately show ?thesis using I e by (simp add: init_inv_def)
qed

lemma init_inv_fill:
  assumes wf: "wf_grid m" and I: "init_inv m ds st" and rc: "r < 9" "c < 9"
    and f: "filled m (r, c)" and n: "allocated st + 1 \<noteq> 81"
  shows "init_inv m (ds @ [(r, c)])
     (updateOptions (key (cellv m r c)) r c
       (st\<lparr>fixed := insert (r, c) (fixed st), cycles := Suc (cycles st), matrix := m,
           allocated := allocated st + 1\<rparr>))"
proof -
  let ?k = "key (cellv m r c)" and ?q = "quadrantNumber r c"
  have q: "?q < 9" using rc by (rule quadrantNumber_lt)
  have U: "unit_digits m (given (ds @ [(r, c)]) ps) =
      (if (r, c) \<in> set ps then insert ?k (unit_digits m (given ds ps)) else unit_digits m (given ds ps))"
    for ps using f by (simp add: unit_digits_given_snoc digit_def)
  have len: "length (row st) = 9" "length (column st) = 9" "length (quadrant st) = 9"
    using I by (simp_all add: init_inv_def)
  have old: "row st ! i = numbers - unit_digits m (given ds (row_cells i))"
    "column st ! i = numbers - unit_digits m (given ds (col_cells i))"
    "quadrant st ! i = numbers - unit_digits m (given ds (quad_cells i))" if "i < 9" for i
    using I that by (simp_all add: init_inv_def)
  have R: "(row st)[r := Set.remove ?k (row st ! r)] ! i =
             numbers - unit_digits m (given (ds @ [(r, c)]) (row_cells i))" if "i < 9" for i
    using that rc len old [OF that] old [OF rc(1)]
    by (cases "i = r") (simp_all add: U remove_diff)
  have C: "(column st)[c := Set.remove ?k (column st ! c)] ! i =
             numbers - unit_digits m (given (ds @ [(r, c)]) (col_cells i))" if "i < 9" for i
    using that rc len old [OF that] old [OF rc(2)]
    by (cases "i = c") (simp_all add: U remove_diff)
  have Q: "(quadrant st)[?q := Set.remove ?k (quadrant st ! ?q)] ! i =
             numbers - unit_digits m (given (ds @ [(r, c)]) (quad_cells i))" if "i < 9" for i
    using that rc len old [OF that] old [OF q]
    by (cases "i = ?q") (simp_all add: U remove_diff)
  have fx: "{p \<in> set (ds @ [(r, c)]). filled m p} = insert (r, c) {p \<in> set ds. filled m p}"
    using f by auto
  show ?thesis
    using len R C Q I f n unfolding init_inv_def updateOptions_def Let_def fx
    by simp
qed

lemma filter_prefix_count:
  "ds @ ps = cells \<Longrightarrow> length (filter (filled m) ds) \<le> length (filter (filled m) cells)"
  by (metis filter_append le_add1 length_append)

lemma init_cells_result:
  assumes wf: "wf_grid m"
  shows "init_inv m ds st \<Longrightarrow> ds @ ps = cells \<Longrightarrow>
    (length (filter (filled m) cells) < 81 \<longrightarrow>
       (\<exists>st'. init_cells ps st = Inr st' \<and> init_inv m cells st')) \<and>
    (length (filter (filled m) cells) = 81 \<longrightarrow>
       (\<exists>st'. init_cells ps st = Inl (SolvedException, st') \<and> allocated st' = 81 \<and> matrix st' = m))"
proof (induction ps arbitrary: ds st)
  case Nil
  then have "length (filter (filled m) cells) = length (filter (filled m) ds)" by simp
  moreover have "int (length (filter (filled m) ds)) = allocated st" "allocated st < 81"
    using Nil.prems(1) by (simp_all add: init_inv_def)
  ultimately show ?case using Nil by simp
next
  case (Cons p ps)
  obtain r c where p: "p = (r, c)" by fastforce
  have "(r, c) \<in> set cells" unfolding Cons.prems(2) [symmetric] p by simp
  then have rc: "r < 9" "c < 9" by (auto simp: set_cells)
  have ds': "(ds @ [(r, c)]) @ ps = cells" using Cons.prems(2) p by simp
  have mst: "matrix st = m" using Cons.prems(1) by (simp add: init_inv_def)
  have tr: "truthy (cellv m r c) = filled m (r, c)"
    using wf_val_truthy [OF wf_grid_wf_val [OF wf rc]] by (simp add: filled_def)
  have le81: "length (filter (filled m) cells) \<le> 81"
    using length_filter_le [of "filled m" cells] by (simp add: length_cells)
  show ?case
  proof (cases "filled m (r, c)")
    case False
    then have "init_cells (p # ps) st = init_cells ps st"
      using mst tr p by (simp add: Let_def)
    with Cons.IH [OF init_inv_skip [OF Cons.prems(1) False] ds'] show ?thesis
      by simp
  next
    case True
    have cnt: "allocated st + 1 = int (length (filter (filled m) (ds @ [(r, c)])))"
      using Cons.prems(1) True by (simp add: init_inv_def)
    have same: "set2 m r c (cellv m r c) = m"
      using wf_grid_cellv [OF wf rc] wf_grid_in_range [OF wf rc] by (simp add: set2_nth_id)
    show ?thesis
    proof (cases "allocated st + 1 = 81")
      case full: True
      then have "length (filter (filled m) cells) = 81"
        using cnt filter_prefix_count [OF ds', of m] le81 by linarith
      moreover have "init_cells (p # ps) st = Inl (SolvedException,
          st\<lparr>fixed := insert (r, c) (fixed st), cycles := Suc (cycles st), matrix := m,
             allocated := allocated st + 1\<rparr>)"
        using True tr p mst full same by (simp add: Let_def allocate_def)
      ultimately show ?thesis using full by simp
    next
      case part: False
      have "init_cells (p # ps) st = init_cells ps
         (updateOptions (key (cellv m r c)) r c
           (st\<lparr>fixed := insert (r, c) (fixed st), cycles := Suc (cycles st), matrix := m,
               allocated := allocated st + 1\<rparr>))"
        using True tr p mst part same by (simp add: Let_def allocate_def)
      with Cons.IH [OF init_inv_fill [OF wf Cons.prems(1) rc True part] ds'] show ?thesis
        by simp
    qed
  qed
qed

lemma given_cells: "set ps \<subseteq> set cells \<Longrightarrow> given cells ps = ps"
  by (auto simp: given_def filter_id_conv)

lemma unit_cells_subset:
  assumes "i < 9"
  shows "set (row_cells i) \<subseteq> set cells" "set (col_cells i) \<subseteq> set cells" "set (quad_cells i) \<subseteq> set cells"
  using assms by (auto simp: set_cells)

lemma init_inv_inv:
  assumes "wf_grid m" "consistent m" "init_inv m cells st"
  shows "inv st"
  using assms by (auto simp: inv_def opts_ok_def count_ok_def fixed_ok_def init_inv_def
      given_cells [OF unit_cells_subset(1)] given_cells [OF unit_cells_subset(2)]
      given_cells [OF unit_cells_subset(3)])

lemma init_cells_from_reset:
  "s \<noteq> [] \<Longrightarrow> init s st = init_cells cells ((reset st)\<lparr>sudokuString := s, matrix := parse s\<rparr>)"
  by (simp add: init_def Let_def)

lemma concat_slices:
  "concat (map (\<lambda>r. take k (drop (r * k) xs)) [0..<n]) = take (n * k) xs"
proof (induction n)
  case 0
  then show ?case by simp
next
  case (Suc n)
  have "take (Suc n * k) xs = take (n * k + k) xs" by (simp add: add.commute)
  also have "\<dots> = take (n * k) xs @ take k (drop (n * k) xs)" by (rule take_add)
  finally show ?case using Suc.IH by simp
qed

lemma concat_parse: "concat (parse s) = map parse_char (take 81 s)"
  by (simp add: parse_def concat_slices take_map)

lemma print_parse_char: "valid_char ch \<Longrightarrow> print_val (parse_char ch) = ch"
  by (auto simp: valid_char_def parse_char_def print_val_def)

lemma parse_char_cases: "parse_char ch = Null \<or> parse_char ch = NaN \<or> (\<exists>d \<le> 9. parse_char ch = Num d)"
  by (auto simp: parse_char_def Let_def)

lemma set2_cellv_truthy: "truthy (cellv m r c) \<Longrightarrow> set2 m r c (cellv m r c) = m"
  by (cases "r < length m \<and> c < length (m ! r)") (auto simp: cellv_def js_at_def set2_nth_id split: if_splits)

lemma init_cells_matrix: "init_cells ps st = Inr st' \<Longrightarrow> matrix st' = matrix st"
proof (induction ps arbitrary: st)
  case Nil
  then show ?case by simp
next
  case (Cons p ps)
  obtain r c where p: "p = (r, c)" by fastforce
  show ?case
  proof (cases "truthy (cellv (matrix st) r c)")
    case True
    with Cons.prems p obtain st1 where
      al: "allocate (cellv (matrix st) r c) r c (st\<lparr>fixed := insert (r, c) (fixed st)\<rparr>) = Inr st1"
      and rest: "init_cells ps st1 = Inr st'"
      by (auto simp: Let_def split: sum.splits)
    have "matrix st1 = matrix st" using al True by (simp add: allocate_Inr set2_cellv_truthy)
    with Cons.IH [OF rest] show ?thesis by simp
  next
    case False
    with Cons.prems Cons.IH p show ?thesis by (simp add: Let_def)
  qed
qed

lemma init_matrix:
  "init s st = Inr st' \<Longrightarrow> matrix st' = parse (if s = [] then sudokuString st else s)"
  by (auto simp: init_def Let_def reset_def dest: init_cells_matrix)

lemma parse_fits: "length (parse s) = 9 \<and> (\<forall>xs \<in> set (parse s). length xs \<le> 9)"
  by (auto simp: parse_map)

lemma init_valid:
  assumes "valid_puzzle s" "length (filter (filled (parse s)) cells) < 81"
  shows "\<exists>st'. init s st = Inr st' \<and> init_inv (parse s) cells st'"
proof -
  have wf: "wf_grid (parse s)" using assms(1) by (rule valid_puzzle_wf)
  have ne: "s \<noteq> []" using assms(1) by (auto simp: valid_puzzle_def)
  from init_cells_result [OF wf init_inv_reset [where m = "parse s" and st = st and s = s],
      where ps = cells] assms(2) ne
  show ?thesis by (auto simp: init_cells_from_reset)
qed

text \<open>On any matrix, even one of the wrong shape, the cell loop allocates exactly the
  truthy cells and leaves the matrix as it is, as long as the count stays below 81.\<close>

lemma init_cells_count:
  "matrix st = m \<Longrightarrow>
   allocated st + int (length (filter (\<lambda>p. truthy (cellv m (fst p) (snd p))) ps)) < 81 \<Longrightarrow>
   \<exists>st'. init_cells ps st = Inr st' \<and> matrix st' = m \<and>
     allocated st' = allocated st + int (length (filter (\<lambda>p. truthy (cellv m (fst p) (snd p))) ps))"
proof (induction ps arbitrary: st)
  case Nil
  then show ?case by simp
next
  case (Cons p ps)
  obtain r c where p: "p = (r, c)" by (cases p)
  show ?case
  proof (cases "truthy (cellv m r c)")
    case True
    have "allocated st + 1 \<noteq> 81" using Cons.prems(2) True p by simp
    then obtain st1 where al: "allocate (cellv m r c) r c (st\<lparr>fixed := insert (r, c) (fixed st)\<rparr>) = Inr st1"
      by (simp add: allocate_Inr)
    have m1: "matrix st1 = m" "allocated st1 = allocated st + 1"
      using al Cons.prems(1) True by (simp_all add: allocate_Inr set2_cellv_truthy)
    then obtain st' where "init_cells ps st1 = Inr st'" "matrix st' = m"
      "allocated st' = allocated st1 + int (length (filter (\<lambda>p. truthy (cellv m (fst p) (snd p))) ps))"
      using Cons.IH [of st1] Cons.prems(2) True p by auto
    then show ?thesis using al m1 Cons.prems(1) True p by (simp add: Let_def)
  next
    case False
    then show ?thesis using Cons.IH [of st] Cons.prems p by (simp add: Let_def)
  qed
qed

text \<open>A string has at least as many characters as its parsed grid has truthy cells.\<close>

lemma truthy_cells_le: "length (filter (\<lambda>p. truthy (cellv (parse s) (fst p) (snd p))) cells) \<le> length s"
proof -
  let ?m = "parse s"
  have row: "length (filter (\<lambda>c. truthy (cellv ?m r c)) [0..<9]) \<le> length (?m ! r)" for r
  proof -
    have "{i. i < 9 \<and> truthy (cellv ?m r i)} \<subseteq> {..<length (?m ! r)}"
      by (auto simp: cellv_def js_at_def split: if_splits)
    then have "card {i. i < 9 \<and> truthy (cellv ?m r i)} \<le> length (?m ! r)"
      using card_mono [of "{..<length (?m ! r)}"] by fastforce
    then show ?thesis by (simp add: length_filter_conv_card cong: conj_cong)
  qed
  have "length (filter (\<lambda>p. truthy (cellv ?m (fst p) (snd p))) cells) =
      sum_list (map (\<lambda>r. length (filter (\<lambda>c. truthy (cellv ?m r c)) [0..<9])) [0..<9])"
    by (simp add: cells_def filter_concat length_concat map_map o_def filter_map)
  also have "\<dots> \<le> sum_list (map (\<lambda>r. length (?m ! r)) [0..<9])"
    by (rule sum_list_mono) (rule row)
  also have "\<dots> = length (concat ?m)"
  proof -
    have "map length ?m = map (\<lambda>r. length (?m ! r)) [0..<9]" by (rule nth_equalityI) simp_all
    then show ?thesis by (simp add: length_concat)
  qed
  also have "\<dots> \<le> length s" by (simp add: concat_parse)
  finally show ?thesis .
qed

section \<open>Properties of loading\<close>

text \<open>C13. Loading establishes the invariant: for a valid puzzle string whose givens
  do not clash and that leaves at least one cell empty, \<open>init\<close> returns normally
  with a state satisfying \<open>inv\<close>, whose matrix is the parsed puzzle, whose fixed
  cells are exactly the givens, and whose trace is empty.\<close>

theorem init_loads:
  assumes "valid_puzzle s" "consistent (parse s)" "length (filter (filled (parse s)) cells) < 81"
  shows "\<exists>st'. init s st = Inr st' \<and> inv st' \<and> matrix st' = parse s \<and>
           fixed st' = {p \<in> set cells. filled (parse s) p} \<and> solution st' = []"
proof -
  obtain st' where "init s st = Inr st'" and I: "init_inv (parse s) cells st'"
    using init_valid [OF assms(1,3)] by blast
  moreover have "inv st'" using init_inv_inv [OF valid_puzzle_wf [OF assms(1)] assms(2) I] .
  ultimately show ?thesis using I by (simp add: init_inv_def)
qed

text \<open>C15. Round trip: printing the parsed grid of a valid puzzle string gives the
  string back, so \<open>parse\<close> loses nothing of a valid input.\<close>

theorem parse_roundtrip: "valid_puzzle s \<Longrightarrow> unparse (parse s) = s"
proof -
  assume v: "valid_puzzle s"
  have "unparse (parse s) = map (print_val \<circ> parse_char) s"
    using v by (simp add: unparse_def map_concat [symmetric] concat_parse valid_puzzle_def)
  also have "\<dots> = s"
    using v by (simp add: valid_puzzle_def list_all_iff print_parse_char map_idI)
  finally show ?thesis .
qed

text \<open>C16. A puzzle string with all 81 cells given makes \<open>init\<close> throw
  \<open>SolvedException\<close> from its 81st \<open>allocate\<close>, whether or not the givens clash:
  the exception is not caught and the state is left with 81 allocations.\<close>

theorem init_full_throws:
  assumes "valid_puzzle s" "length (filter (filled (parse s)) cells) = 81"
  shows "\<exists>st'. init s st = Inl (SolvedException, st') \<and> allocated st' = 81 \<and> matrix st' = parse s"
proof -
  have wf: "wf_grid (parse s)" using assms(1) by (rule valid_puzzle_wf)
  have ne: "s \<noteq> []" using assms(1) by (auto simp: valid_puzzle_def)
  from init_cells_result [OF wf init_inv_reset [where m = "parse s" and st = st and s = s], where ps = cells] assms(2) ne show ?thesis
    by (simp add: init_cells_from_reset)
qed

text \<open>C17. The shape of \<open>parse\<close> on any string: nine rows, row \<open>r\<close> holding the
  characters \<open>9r\<close> to \<open>9r+8\<close> (short or empty when the input is short), and every
  cell \<open>null\<close>, \<open>NaN\<close> or a number from 0 to 9.\<close>

theorem parse_shape:
  "length (parse s) = 9 \<and>
   (\<forall>r < 9. length (parse s ! r) = min 9 (length s - r * 9)) \<and>
   (\<forall>xs \<in> set (parse s). \<forall>v \<in> set xs. v = Null \<or> v = NaN \<or> (\<exists>d \<le> 9. v = Num d))"
proof -
  have "v \<in> parse_char ` set s" if "xs \<in> set (parse s)" "v \<in> set xs" for xs v
    using that by (auto simp: parse_map intro!: imageI dest!: in_set_takeD in_set_dropD)
  then show ?thesis using parse_char_cases by (fastforce simp: parse_map)
qed

text \<open>C23. \<open>init\<close> does not validate the length of its input, although the
  specification asks for an invalid-input error before any mutation: every non-empty
  string shorter than 81 characters is loaded without an error, its parsed grid
  becomes the matrix, and every truthy cell of it is allocated as a given.\<close>

theorem init_accepts_short_input:
  assumes "s \<noteq> []" "length s < 81"
  shows "\<exists>st'. init s st = Inr st' \<and> matrix st' = parse s \<and>
           allocated st' = int (length (filter (\<lambda>p. truthy (cellv (parse s) (fst p) (snd p))) cells))"
proof -
  let ?st0 = "(reset st)\<lparr>sudokuString := s, matrix := parse s\<rparr>"
  have "allocated ?st0 + int (length (filter (\<lambda>p. truthy (cellv (parse s) (fst p) (snd p))) cells)) < 81"
    using truthy_cells_le [of s] assms(2) by (simp add: reset_def)
  from init_cells_count [OF _ this] assms(1) show ?thesis
    by (simp add: init_def Let_def reset_def)
qed

lemma parse_shape_witness: "length (parse ''12x'' ! 0) = 3 \<and> length (parse ''12x'' ! 1) = 0"
  using parse_shape [of "''12x''"] by simp

end
