(* ===== verification/Animation.thy ===== *)
theory Animation
  imports Rendering Search Lifecycle
begin

text \<open>
  Playback of the solution trace and loading with the page: \<open>doStep\<close>,
  \<open>animate\<close> with its timer loop, and the whole of \<open>init\<close> and \<open>updateCell\<close>
  with their page effects. The lemmas show that loading renders without error and
  keeps a 9-by-9 table, and that playback after a successful search runs without
  error and leaves every candidate set empty.
\<close>

section \<open>Operations\<close>

fun is_input :: "content \<Rightarrow> bool" where
  "is_input (InputBox s) = True"
| "is_input _ = False"

text \<open>Assigning a value to an input's \<open>value\<close>: \<open>null\<close> becomes the empty
  string, anything else its string form.\<close>

definition input_str :: "val \<Rightarrow> string" where
  "input_str v = (if v = Null then [] else js_str v)"

text \<open>\<open>doStep\<close>: write the cell's current value into its input box (a cell
  without an input box is a \<open>TypeError\<close>), remove the step's digit from the
  three candidate sets, and recolour the related cells with the step's cell
  highlighted.\<close>

definition doStep :: "(rat \<Rightarrow> string) \<Rightarrow> step \<Rightarrow> solver \<Rightarrow> page \<Rightarrow> dom_error + solver \<times> page" where
  "doStep dec2hex s st p =
     (case s of Step v r c \<Rightarrow>
        if has_cell p r c \<and> is_input (content (table p ! r ! c)) then
          (let p1 = set_cell p r c (\<lambda>x. x\<lparr>content := InputBox (input_str (cellv (matrix st) r c))\<rparr>);
               st1 = updateOptions (key v) r c st
           in case colorRelatedCells dec2hex st1 (r, c) True p1 of
                Inl e \<Rightarrow> Inl e
              | Inr p2 \<Rightarrow> Inr (st1, p2))
        else Inl TypeError)"

text \<open>\<open>animateLoop(s)\<close>: one timer callback per step, from index \<open>s\<close> down to 0,
  that is from the first allocation the search made to the last. The argument is
  \<open>s + 1\<close>, the number of callbacks still to come.\<close>

fun animateLoop :: "(rat \<Rightarrow> string) \<Rightarrow> nat \<Rightarrow> solver \<Rightarrow> page \<Rightarrow> dom_error + solver \<times> page" where
  "animateLoop dec2hex 0 st p = Inr (st, p)"
| "animateLoop dec2hex (Suc s) st p =
     (case doStep dec2hex (solution st ! s) st p of
        Inl e \<Rightarrow> Inl e
      | Inr (st', p') \<Rightarrow> animateLoop dec2hex s st' p')"

text \<open>The synchronous part of \<open>animate\<close>: reset the candidate sets to full and
  re-apply the fixed cells with \<open>colorFixed\<close>.\<close>

definition animate_begin :: "(rat \<Rightarrow> string) \<Rightarrow> solver \<Rightarrow> page \<Rightarrow> dom_error + solver \<times> page" where
  "animate_begin dec2hex st p =
     (let st0 = st\<lparr>row := replicate 9 numbers, column := replicate 9 numbers,
                   quadrant := replicate 9 numbers\<rparr>
      in colorFixed dec2hex st0 p)"

text \<open>\<open>animate\<close>: \<open>animate_begin\<close>, then play the trace from
  \<open>animateLoop(this.solution.length - 1)\<close>. Here the timer callbacks run one
  after the other with nothing in between; theory \<open>Playback\<close> models them as
  separate events and shows that, left alone, they end in this state.\<close>

definition animate :: "(rat \<Rightarrow> string) \<Rightarrow> solver \<Rightarrow> page \<Rightarrow> dom_error + solver \<times> page" where
  "animate dec2hex st p =
     (case animate_begin dec2hex st p of
        Inl e \<Rightarrow> Inl e
      | Inr (st1, p1) \<Rightarrow> animateLoop dec2hex (length (solution st1)) st1 p1)"

text \<open>The whole of \<open>init\<close>: the solver part, then \<open>if (!this._rendered++)
  this.renderTable()\<close> and \<open>renderNumbers\<close>. An exception of the solver part
  leaves the page untouched.\<close>

definition render_loaded :: "(rat \<Rightarrow> string) \<Rightarrow> solver \<Rightarrow> page \<Rightarrow> dom_error + solver \<times> page" where
  "render_loaded dec2hex st1 p =
     (let p1 = (if rendered p = 0 then renderTable p else p)\<lparr>rendered := Suc (rendered p)\<rparr>
      in renderNumbers dec2hex st1 p1)"

definition init_page ::
  "(rat \<Rightarrow> string) \<Rightarrow> string \<Rightarrow> solver \<Rightarrow> page \<Rightarrow> (exn + dom_error) + solver \<times> page" where
  "init_page dec2hex s st p =
     (case init s st of
        Inl (e, st') \<Rightarrow> Inl (Inl e)
      | Inr st1 \<Rightarrow>
          (case render_loaded dec2hex st1 p of
             Inl e \<Rightarrow> Inl (Inr e)
           | Inr res \<Rightarrow> Inr res))"

text \<open>The whole of \<open>updateCell\<close>: the solver part, then
  \<open>colorRelatedCells\<close> around the edited cell, highlighted when the new value is
  truthy (\<open>!!number\<close>).\<close>

definition updateCell_page ::
  "(rat \<Rightarrow> string) \<Rightarrow> val \<Rightarrow> nat \<Rightarrow> nat \<Rightarrow> solver \<Rightarrow> page \<Rightarrow> (exn + dom_error) + solver \<times> page" where
  "updateCell_page dec2hex v r c st p =
     (case updateCell v r c st of
        Inl (e, st') \<Rightarrow> Inl (Inl e)
      | Inr st1 \<Rightarrow>
          (case colorRelatedCells dec2hex st1 (r, c) (truthy v) p of
             Inl e \<Rightarrow> Inl (Inr e)
           | Inr p' \<Rightarrow> Inr (st1, p')))"

definition empty_page :: page where
  "empty_page = \<lparr>rendered = 0, table = [], painted = []\<rparr>"

section \<open>What playback promises\<close>

text \<open>The \<open>updateOptions\<close> call a step makes, and the calls \<open>colorFixed\<close> makes.\<close>

fun step_upd :: "step \<Rightarrow> nat \<times> coord" where
  "step_upd (Step v r c) = (key v, (r, c))"

definition fixed_upds :: "solver \<Rightarrow> (nat \<times> coord) list" where
  "fixed_upds st = map (\<lambda>q. (key (cellv (matrix st) (fst q) (snd q)), q)) (filter (\<lambda>p. p \<in> fixed st) cells)"

text \<open>The table after a first rendering, and before any.\<close>

definition page_ok :: "page \<Rightarrow> bool" where
  "page_ok p = (if rendered p = 0 then table p = [] else board9 p)"

text \<open>The cells that hold an input box.\<close>

definition input_at :: "page \<Rightarrow> coord \<Rightarrow> bool" where
  "input_at p q = (has_cell p (fst q) (snd q) \<and> is_input (content (table p ! fst q ! snd q)))"

section \<open>Lemmas on playback\<close>

lemma step_upd_at [simp]: "snd (step_upd s) = step_at s"
  by (cases s) simp

lemma doStep_Inr:
  assumes "board9 p" "fits9 (matrix st)" "(r, c) \<in> set cells" "input_at p (r, c)"
  shows "\<exists>p'. doStep dec2hex (Step v r c) st p = Inr (updateOptions (key v) r c st, p') \<and>
           shape p' = shape p \<and> rendered p' = rendered p \<and> (\<forall>q. input_at p' q = input_at p q)"
proof -
  let ?p1 = "set_cell p r c (\<lambda>x. x\<lparr>content := InputBox (input_str (cellv (matrix st) r c))\<rparr>)"
  have hc: "has_cell p r c" and inp: "is_input (content (table p ! r ! c))"
    using assms(4) by (simp_all add: input_at_def)
  have b1: "board9 ?p1" using assms(1) by (simp add: board9_def)
  have fit1: "fits9 (matrix (updateOptions (key v) r c st))" using assms(2) by simp
  obtain p2 where p2: "colorRelatedCells dec2hex (updateOptions (key v) r c st) (r, c) True ?p1 = Inr p2"
    "shape p2 = shape ?p1" "contents p2 = contents ?p1" "rendered p2 = rendered ?p1"
    using colorRelatedCells_Inr [OF b1 fit1] by blast
  have same: "has_cell p2 i j = has_cell p i j" for i j by (rule has_cell_shape) (simp add: p2(2))
  have "input_at p2 q = input_at p q" for q
  proof (cases "has_cell p (fst q) (snd q)")
    case True
    have "has_cell ?p1 (fst q) (snd q)" using True by (subst has_cell_shape) simp_all
    then have "content (table p2 ! fst q ! snd q) = content (table ?p1 ! fst q ! snd q)"
      by (rule contents_at [OF p2(3)])
    with True inp hc show ?thesis
      by (cases q) (auto simp: input_at_def same set_cell_content_at)
  next
    case False
    then show ?thesis by (simp add: input_at_def same)
  qed
  with p2 hc inp show ?thesis by (simp add: doStep_def Let_def)
qed

lemma animateLoop_Inr:
  "board9 p \<Longrightarrow> fits9 (matrix st) \<Longrightarrow> n \<le> length (solution st) \<Longrightarrow>
   \<forall>s \<in> set (take n (solution st)). step_at s \<in> set cells \<and> input_at p (step_at s) \<Longrightarrow>
   \<exists>st' p'. animateLoop dec2hex n st p = Inr (st', p') \<and>
     st' = applyUpdates (map step_upd (rev (take n (solution st)))) st \<and>
     shape p' = shape p \<and> rendered p' = rendered p"
proof (induction n arbitrary: st p)
  case 0
  then show ?case by simp
next
  case (Suc n)
  obtain v r c where s: "solution st ! n = Step v r c" by (cases "solution st ! n") auto
  have tk: "take (Suc n) (solution st) = take n (solution st) @ [Step v r c]"
    using Suc.prems(3) s by (simp add: take_Suc_conv_app_nth)
  have rc: "(r, c) \<in> set cells" "input_at p (r, c)" using Suc.prems(4) tk by auto
  obtain p1 where p1: "doStep dec2hex (Step v r c) st p = Inr (updateOptions (key v) r c st, p1)"
    "shape p1 = shape p" "rendered p1 = rendered p" "\<forall>q. input_at p1 q = input_at p q"
    using doStep_Inr [OF Suc.prems(1,2) rc] by blast
  let ?st1 = "updateOptions (key v) r c st"
  have b1: "board9 p1" using p1(2) Suc.prems(1) by (simp add: board9_def)
  have "\<forall>s \<in> set (take n (solution ?st1)). step_at s \<in> set cells \<and> input_at p1 (step_at s)"
    using Suc.prems(4) p1(4) tk by (simp del: split_paired_All)
  with Suc.IH [OF b1, of ?st1] Suc.prems(2,3)
  obtain st' p' where "animateLoop dec2hex n ?st1 p1 = Inr (st', p')"
    "st' = applyUpdates (map step_upd (rev (take n (solution st)))) ?st1"
    "shape p' = shape p1" "rendered p' = rendered p1"
    by auto
  with p1 s tk show ?case by simp
qed

lemma input_at_contents:
  assumes "shape p' = shape p" "contents p' = contents p"
  shows "input_at p' q = input_at p q"
proof (cases "has_cell p (fst q) (snd q)")
  case True
  then show ?thesis using contents_at [OF assms(2) True] has_cell_shape [OF assms(1)]
    by (simp add: input_at_def)
next
  case False
  then show ?thesis using has_cell_shape [OF assms(1)] by (simp add: input_at_def)
qed

lemma animate_begin_Inr:
  assumes "board9 p" "fits9 (matrix st)"
  shows "\<exists>st1 p1. animate_begin dec2hex st p = Inr (st1, p1) \<and>
     st1 = applyUpdates (fixed_upds st)
             (st\<lparr>row := replicate 9 numbers, column := replicate 9 numbers,
                  quadrant := replicate 9 numbers\<rparr>) \<and>
     shape p1 = shape p \<and> contents p1 = contents p \<and> rendered p1 = rendered p"
proof -
  let ?st0 = "st\<lparr>row := replicate 9 numbers, column := replicate 9 numbers, quadrant := replicate 9 numbers\<rparr>"
  have keys: "\<forall>f \<in> set (fixed_keys ?st0). key_coord f \<in> set cells"
  proof
    fix f assume "f \<in> set (fixed_keys ?st0)"
    then have "key_coord f \<in> set (map key_coord (fixed_keys ?st0))" by simp
    then show "key_coord f \<in> set cells" unfolding fixed_keys_coords by simp
  qed
  have fit0: "fits9 (matrix ?st0)" using assms(2) by simp
  obtain st1 p1 where r: "colorFixed_loop dec2hex (fixed_keys ?st0) ?st0 p = Inr (st1, p1)"
    "st1 = applyUpdates (map (\<lambda>q. (key (cellv (matrix ?st0) (fst q) (snd q)), q))
                          (map key_coord (fixed_keys ?st0))) ?st0"
    "shape p1 = shape p" "contents p1 = contents p" "rendered p1 = rendered p"
    using colorFixed_loop_Inr [OF assms(1) fit0 keys] by blast
  have st1: "st1 = applyUpdates (fixed_upds st) ?st0"
    using r(2) by (simp add: fixed_keys_coords fixed_upds_def)
  have "animate_begin dec2hex st p = Inr (st1, p1)"
    using r(1) by (simp add: animate_begin_def colorFixed_def)
  with r(3-5) st1 show ?thesis by blast
qed

lemma animate_Inr:
  assumes "board9 p" "fits9 (matrix st)"
    "\<forall>s \<in> set (solution st). step_at s \<in> set cells \<and> input_at p (step_at s)"
  shows "\<exists>st' p'. animate dec2hex st p = Inr (st', p') \<and>
     st' = applyUpdates (map step_upd (rev (solution st)))
             (applyUpdates (fixed_upds st)
               (st\<lparr>row := replicate 9 numbers, column := replicate 9 numbers,
                    quadrant := replicate 9 numbers\<rparr>)) \<and>
     shape p' = shape p \<and> rendered p' = rendered p"
proof -
  obtain st1 p1 where r: "animate_begin dec2hex st p = Inr (st1, p1)"
    "st1 = applyUpdates (fixed_upds st)
             (st\<lparr>row := replicate 9 numbers, column := replicate 9 numbers,
                  quadrant := replicate 9 numbers\<rparr>)"
    "shape p1 = shape p" "contents p1 = contents p" "rendered p1 = rendered p"
    using animate_begin_Inr [OF assms(1,2)] by blast
  have b1: "board9 p1" using r(3) assms(1) by (simp add: board9_def)
  have fit1: "fits9 (matrix st1)" using assms(2) r(2) by simp
  have H: "\<forall>s \<in> set (take (length (solution st1)) (solution st1)).
      step_at s \<in> set cells \<and> input_at p1 (step_at s)"
    using assms(3) input_at_contents [OF r(3,4)] r(2) by simp
  obtain st' p' where A: "animateLoop dec2hex (length (solution st1)) st1 p1 = Inr (st', p')"
    "st' = applyUpdates (map step_upd (rev (take (length (solution st1)) (solution st1)))) st1"
    "shape p' = shape p1" "rendered p' = rendered p1"
    using animateLoop_Inr [OF b1 fit1 le_refl H] by blast
  have "animate dec2hex st p = Inr (st', p')"
    unfolding animate_def r(1) using A(1) by simp
  with A r(2,3,5) show ?thesis by simp
qed

lemma init_page_Inr:
  assumes "page_ok p" "init s st = Inr st1"
  shows "\<exists>st' p'. init_page dec2hex s st p = Inr (st', p') \<and> st' = applyUpdates (fixed_upds st1) st1 \<and>
     board9 p' \<and> rendered p' = Suc (rendered p) \<and>
     (\<forall>i < 9. \<forall>j < 9. content (table p' ! i ! j) = cell_html (isFixed st1 i j) (cellv (matrix st1) i j))"
proof -
  let ?p1 = "(if rendered p = 0 then renderTable p else p)\<lparr>rendered := Suc (rendered p)\<rparr>"
  have b1: "board9 ?p1"
    using assms(1) by (auto simp: page_ok_def board9_def shape_def renderTable_def)
  have fit: "fits9 (matrix st1)"
    using init_matrix [OF assms(2)] parse_fits by (simp add: fits9_def)
  from renderNumbers_Inr [OF b1 fit, of dec2hex] obtain st' p' where r:
    "renderNumbers dec2hex st1 ?p1 = Inr (st', p')"
    "st' = applyUpdates (map (\<lambda>q. (key (cellv (matrix st1) (fst q) (snd q)), q))
                          (filter (\<lambda>p. p \<in> fixed st1) cells)) st1"
    "shape p' = shape ?p1" "rendered p' = rendered ?p1"
    "\<forall>i < 9. \<forall>j < 9. content (table p' ! i ! j) = cell_html (isFixed st1 i j) (cellv (matrix st1) i j)"
    by blast
  have "board9 p'" using r(3) b1 by (simp add: board9_def)
  with r assms(2) show ?thesis by (simp add: init_page_def render_loaded_def fixed_upds_def)
qed

lemma applyUpdates_fixed_inv:
  assumes "inv st"
  shows "applyUpdates (fixed_upds st) st = st"
proof -
  let ?m = "matrix st" and ?st' = "applyUpdates (fixed_upds st) st"
  have lens: "length (row st) = 9" "length (column st) = 9" "length (quadrant st) = 9"
    using assms by (simp_all add: inv_def opts_ok_def)
  have cl: "\<forall>u \<in> set (fixed_upds st). snd u \<in> set cells" by (auto simp: fixed_upds_def)
  have fx: "filled ?m q" if "q \<in> fixed st" for q using assms that by (simp add: inv_def fixed_ok_def)
  have old: "row st ! i = numbers - unit_digits ?m (row_cells i)"
    "column st ! i = numbers - unit_digits ?m (col_cells i)"
    "quadrant st ! i = numbers - unit_digits ?m (quad_cells i)" if "i < 9" for i
    using assms that by (simp_all add: inv_def opts_ok_def)
  have gone: "fst u \<notin> row st ! i" "fst u \<notin> column st ! j"
    "fst u \<notin> quadrant st ! quadrantNumber (fst (snd u)) (snd (snd u))"
    if u: "u \<in> set (fixed_upds st)" and ij: "i = fst (snd u)" "j = snd (snd u)" for u i j
  proof -
    obtain q where q0: "q \<in> set (filter (\<lambda>p. p \<in> fixed st) cells)"
      "u = (key (cellv ?m (fst q) (snd q)), q)"
      using u unfolding fixed_upds_def by auto
    then have q: "q \<in> set cells" "q \<in> fixed st" "u = (digit ?m q, q)" by (simp_all add: digit_def)
    have rc: "fst q < 9" "snd q < 9" using q(1) by (auto simp: set_cells)
    have qn: "quadrantNumber (fst q) (snd q) < 9" using rc by (rule quadrantNumber_lt)
    have "digit ?m q \<in> unit_digits ?m (row_cells (fst q))" "digit ?m q \<in> unit_digits ?m (col_cells (snd q))"
      "digit ?m q \<in> unit_digits ?m (quad_cells (quadrantNumber (fst q) (snd q)))"
      using fx [OF q(2)] rc by (auto simp: unit_digits_def)
    then show "fst u \<notin> row st ! i" "fst u \<notin> column st ! j"
      "fst u \<notin> quadrant st ! quadrantNumber (fst (snd u)) (snd (snd u))"
      using old [OF rc(1)] old [OF rc(2)] old [OF qn] q(3) ij by auto
  qed
  have "row ?st' ! i = row st ! i \<and> column ?st' ! i = column st ! i \<and> quadrant ?st' ! i = quadrant st ! i"
    if "i < 9" for i
    using applyUpdates_sets [OF lens cl that] gone by fastforce
  then have "row ?st' = row st" "column ?st' = column st" "quadrant ?st' = quadrant st"
    using lens by (auto intro!: nth_equalityI)
  then show ?thesis by (intro solver.equality) simp_all
qed

lemma solved_digit_covered:
  assumes sf: "solved_from m [] st2 new" and fx: "fixed st2 = {p \<in> set cells. filled m p}"
    and p: "p \<in> set cells"
  shows "\<exists>u \<in> set (fixed_upds st2 @ map step_upd (rev new)). snd u = p \<and> fst u = digit (matrix st2) p"
proof (cases "cellv (matrix st2) (fst p) (snd p) = cellv m (fst p) (snd p)")
  case True
  have "filled (matrix st2) p" using sf p unfolding solved_from_def by blast
  then have "p \<in> fixed st2" using True fx p by (simp add: filled_def)
  then have "(digit (matrix st2) p, p) \<in> set (fixed_upds st2)"
    using p by (auto simp: fixed_upds_def digit_def)
  then show ?thesis by force
next
  case False
  have m2: "matrix st2 = replay (rev new) m" using sf unfolding solved_from_def by blast
  from replay_cell [of "rev new" m "fst p" "snd p"] False m2
  obtain v where "Step v (fst p) (snd p) \<in> set new" "cellv (matrix st2) (fst p) (snd p) = v"
    by auto
  then have "(digit (matrix st2) p, p) \<in> set (map step_upd (rev new))"
    by (force simp: digit_def)
  then show ?thesis by (intro bexI [of _ "(digit (matrix st2) p, p)"]) auto
qed

lemma solved_unit_covered:
  assumes sf: "solved_from m [] st2 new" and fx: "fixed st2 = {p \<in> set cells. filled m p}"
    and ps: "ps \<in> set units" and P: "\<forall>p \<in> set ps. P p"
  shows "numbers \<subseteq> {fst u |u. u \<in> set (fixed_upds st2 @ map step_upd (rev new)) \<and> P (snd u)}"
proof
  fix d assume "d \<in> numbers"
  have "wf_grid (matrix st2)" "consistent (matrix st2)" "\<forall>p \<in> set cells. filled (matrix st2) p"
    using sf unfolding solved_from_def by blast+
  then have "is_solution (grid_of (matrix st2))" by (rule complete_grid_solution)
  from solution_unit_numbers [OF this ps] \<open>d \<in> numbers\<close>
  have "d \<in> digit (matrix st2) ` set ps" by (simp add: grid_of_def)
  then obtain p where p: "p \<in> set ps" "d = digit (matrix st2) p" by blast
  have "p \<in> set cells" using units_subset_cells [OF ps] p(1) by blast
  from solved_digit_covered [OF sf fx this] P p show "d \<in> {fst u |u. u \<in> set (fixed_upds st2 @ map step_upd (rev new)) \<and> P (snd u)}"
    by force
qed

lemma steps_on_inputs:
  assumes b: "board9 p" and html: "\<forall>i < 9. \<forall>j < 9. content (table p ! i ! j) = cell_html (isFixed st i j) (cellv (matrix st) i j)"
    and fx: "fixed st = {q \<in> set cells. filled m q}"
  shows "\<forall>s \<in> set new. step_at s \<in> set cells \<and> \<not> filled m (step_at s) \<Longrightarrow>
    \<forall>s \<in> set new. step_at s \<in> set cells \<and> input_at p (step_at s)"
proof
  fix x assume steps: "\<forall>s \<in> set new. step_at s \<in> set cells \<and> \<not> filled m (step_at s)" and "x \<in> set new"
  then have x: "step_at x \<in> set cells" "\<not> filled m (step_at x)" by auto
  then have rc: "fst (step_at x) < 9" "snd (step_at x) < 9" by (auto simp: set_cells)
  have "step_at x \<notin> fixed st" using x(2) fx by simp
  then show "step_at x \<in> set cells \<and> input_at p (step_at x)"
    using x(1) html rc board9_has_cell [OF b rc]
    by (simp add: input_at_def cell_html_def isFixed_def)
qed

lemma replayed_sets_empty:
  assumes sf: "solved_from m [] st2 new" and fx2: "fixed st2 = {p \<in> set cells. filled m p}"
    and st3: "st3 = applyUpdates (map step_upd (rev new))
             (applyUpdates (fixed_upds st2)
               (st2\<lparr>row := replicate 9 numbers, column := replicate 9 numbers,
                    quadrant := replicate 9 numbers\<rparr>))"
    and i: "i < 9"
  shows "row st3 ! i = {} \<and> column st3 ! i = {} \<and> quadrant st3 ! i = {}"
proof -
  let ?U = "fixed_upds st2 @ map step_upd (rev new)"
  let ?st20 = "st2\<lparr>row := replicate 9 numbers, column := replicate 9 numbers, quadrant := replicate 9 numbers\<rparr>"
  have steps: "\<forall>s \<in> set new. step_at s \<in> set cells"
    using sf unfolding solved_from_def by blast
  have cl: "\<forall>u \<in> set ?U. snd u \<in> set cells"
    using steps by (auto simp: fixed_upds_def)
  have S: "row st3 ! i = numbers - {fst u |u. u \<in> set ?U \<and> fst (snd u) = i} \<and>
    column st3 ! i = numbers - {fst u |u. u \<in> set ?U \<and> snd (snd u) = i} \<and>
    quadrant st3 ! i = numbers - {fst u |u. u \<in> set ?U \<and> quadrantNumber (fst (snd u)) (snd (snd u)) = i}"
    using applyUpdates_sets [of ?st20 ?U i] cl i st3 by (simp add: applyUpdates_append)
  have R: "numbers \<subseteq> {fst u |u. u \<in> set ?U \<and> fst (snd u) = i}"
    using solved_unit_covered [OF sf fx2, of "row_cells i" "\<lambda>q. fst q = i"] unit_cells_in_units i
    by simp
  have C: "numbers \<subseteq> {fst u |u. u \<in> set ?U \<and> snd (snd u) = i}"
    using solved_unit_covered [OF sf fx2, of "col_cells i" "\<lambda>q. snd q = i"] unit_cells_in_units i
    by simp
  have Q: "numbers \<subseteq> {fst u |u. u \<in> set ?U \<and> quadrantNumber (fst (snd u)) (snd (snd u)) = i}"
    using solved_unit_covered [OF sf fx2, of "quad_cells i" "\<lambda>q. quadrantNumber (fst q) (snd q) = i"]
      unit_cells_in_units i
    by simp
  show ?thesis using S R C Q by (simp only: Diff_eq_empty_iff)
qed

lemma solved_playable:
  assumes "valid_puzzle s" "consistent (parse s)" "length (filter (filled (parse s)) cells) < 81"
    "page_ok p" "init_page dec2hex s st p = Inr (st1, p1)" "solve st1 = Some (True, st2)"
  shows "\<exists>new. solved_from (parse s) [] st2 new \<and> fixed st2 = {q \<in> set cells. filled (parse s) q} \<and>
    solution st2 = new \<and> board9 p1 \<and> fits9 (matrix st2) \<and>
    (\<forall>x \<in> set (solution st2). step_at x \<in> set cells \<and> input_at p1 (step_at x))"
proof -
  let ?m = "parse s"
  obtain st0 where ld: "init s st = Inr st0" and I: "init_inv ?m cells st0"
    using init_valid [OF assms(1,3)] by blast
  have inv0: "inv st0" using init_inv_inv [OF valid_puzzle_wf [OF assms(1)] assms(2) I] .
  from init_page_Inr [OF assms(4) ld, of dec2hex] assms(5)
  have st1: "st1 = applyUpdates (fixed_upds st0) st0" and b1: "board9 p1"
    and html: "\<forall>i < 9. \<forall>j < 9. content (table p1 ! i ! j) = cell_html (isFixed st0 i j) (cellv (matrix st0) i j)"
    by auto
  have st10: "st1 = st0" using st1 applyUpdates_fixed_inv [OF inv0] by simp
  have a0: "allocated st0 \<noteq> 81" and m0: "matrix st0 = ?m" and s0: "solution st0 = []"
    and f0: "fixed st0 = {p \<in> set cells. filled ?m p}"
    using I by (simp_all add: init_inv_def)
  obtain new where sf: "solved_from ?m [] st2 new" and f2: "fixed st2 = fixed st0"
    using solve_success [OF inv0 a0 assms(6) [unfolded st10]] m0 s0 by auto
  have sol2: "solution st2 = new" and wf2: "wf_grid (matrix st2)"
    and steps: "\<forall>s \<in> set new. step_at s \<in> set cells \<and> \<not> filled ?m (step_at s)"
    using sf unfolding solved_from_def append_Nil by blast+
  have fit2: "fits9 (matrix st2)" using wf2 by (simp add: fits9_def wf_grid_def)
  have "\<forall>s \<in> set (solution st2). step_at s \<in> set cells \<and> input_at p1 (step_at s)"
    using steps_on_inputs [OF b1 html f0] steps sol2 by simp
  with sf f2 f0 sol2 b1 fit2 show ?thesis by blast
qed

section \<open>Properties of loading with the page and of playback\<close>

text \<open>C21. Loading never meets a missing table cell, and the table stays nine rows
  of nine cells however often a puzzle is loaded: from a page that is either untouched
  or already rendered, an \<open>init\<close> whose solver part returns normally renders every
  cell without a \<open>TypeError\<close>, counts the rendering in \<open>_rendered\<close>, and leaves a
  rendered 9-by-9 table (\<open>renderTable\<close> runs on the first load only).\<close>

theorem init_page_safe:
  assumes "page_ok p" "init s st = Inr st1"
  shows "\<exists>st' p'. init_page dec2hex s st p = Inr (st', p') \<and> page_ok p' \<and>
           rendered p' = Suc (rendered p)"
proof -
  obtain st' p' where "init_page dec2hex s st p = Inr (st', p')" "board9 p'" "rendered p' = Suc (rendered p)"
    using init_page_Inr [OF assms, of dec2hex] by blast
  moreover then have "page_ok p'" by (simp add: page_ok_def)
  ultimately show ?thesis by blast
qed

text \<open>C22. Playback replays the search: after loading a valid, non-clashing,
  incomplete puzzle with its page and a successful \<open>solve\<close>, \<open>animate\<close> runs
  every timer step without a \<open>TypeError\<close> (each step writes a cell that was
  rendered as an input box) and ends with every row, column and block candidate set
  empty, as the solved grid has all nine digits in each unit.\<close>

theorem animate_after_solve:
  assumes "valid_puzzle s" "consistent (parse s)" "length (filter (filled (parse s)) cells) < 81"
    "page_ok p" "init_page dec2hex s st p = Inr (st1, p1)" "solve st1 = Some (True, st2)"
  shows "\<exists>st3 p3. animate dec2hex st2 p1 = Inr (st3, p3) \<and>
           (\<forall>i < 9. row st3 ! i = {} \<and> column st3 ! i = {} \<and> quadrant st3 ! i = {})"
proof -
  obtain new where sf: "solved_from (parse s) [] st2 new"
    and f2: "fixed st2 = {p \<in> set cells. filled (parse s) p}" and sol2: "solution st2 = new"
    and b1: "board9 p1" and fit2: "fits9 (matrix st2)"
    and steps: "\<forall>x \<in> set (solution st2). step_at x \<in> set cells \<and> input_at p1 (step_at x)"
    using solved_playable [OF assms] by blast
  from animate_Inr [OF b1 fit2 steps] obtain st3 p3 where A: "animate dec2hex st2 p1 = Inr (st3, p3)"
    "st3 = applyUpdates (map step_upd (rev (solution st2)))
             (applyUpdates (fixed_upds st2)
               (st2\<lparr>row := replicate 9 numbers, column := replicate 9 numbers,
                    quadrant := replicate 9 numbers\<rparr>))"
    by blast
  with replayed_sets_empty [OF sf f2] sol2 show ?thesis by auto
qed

text \<open>C24. Typing a candidate digit into an empty cell of a rendered board: when the
  digit (the input's string value) is one of the cell's candidates and the cell is
  not the last empty one, \<open>updateCell\<close> returns normally, recolours the related
  cells without a \<open>TypeError\<close>, writes the digit and keeps the invariant.\<close>

theorem updateCell_candidate:
  assumes "inv st" "board9 p" "r < 9" "c < 9" "cellv (matrix st) r c = Null"
    "d \<in> calcOptions st r c" "allocated st + 1 \<noteq> 81"
  shows "\<exists>st' p'. updateCell_page dec2hex (Key d) r c st p = Inr (st', p') \<and> inv st' \<and>
           cellv (matrix st') r c = Key d \<and> allocated st' = allocated st + 1"
proof -
  let ?st' = "updateOptions d r c
      (st\<lparr>cycles := Suc (cycles st), matrix := set2 (matrix st) r c (Key d), allocated := allocated st + 1\<rparr>)"
  have al: "allocate (Key d) r c st = Inr ?st'" using assms(7) by (simp add: allocate_Inr)
  have uc: "updateCell (Key d) r c st = Inr ?st'" using al assms(5) by (simp add: updateCell_def)
  have wf: "wf_grid (matrix st)" using assms(1) by (simp add: inv_def)
  have inv': "inv ?st'"
    using allocate_inv [OF assms(1,3,4) _ _ _ al] assms(5,6) by (simp add: filled_def)
  have "wf_grid (matrix ?st')" using inv' by (simp add: inv_def)
  then have "fits9 (matrix ?st')" by (simp add: fits9_def wf_grid_def)
  then obtain p' where "colorRelatedCells dec2hex ?st' (r, c) True p = Inr p'"
    using colorRelatedCells_Inr [OF assms(2)] by blast
  moreover have "cellv (matrix ?st') r c = Key d"
    using wf_grid_in_range [OF wf assms(3,4)] by (simp add: cell_simps)
  ultimately show ?thesis using uc inv' by (simp add: updateCell_page_def)
qed

end
