(* ===== verification/Playback.thy ===== *)
theory Playback
  imports Animation
begin

text \<open>
  The timers of playback and the events that interleave with them. \<open>animate\<close>
  does its synchronous part (\<open>animate_begin\<close>) and then schedules one
  \<open>setTimeout\<close> callback per step, each callback scheduling the next, and stores
  the id of the last one in \<open>this.timeout\<close>; \<open>stopAnimation\<close> clears only that
  id; \<open>reset\<close> (called by \<open>init\<close>) calls \<open>stopAnimation\<close>. Between two
  callbacks the browser may deliver any other event: another \<open>animate\<close>, a load,
  an edit, a solve, a stop. The state \<open>pstate\<close> holds the solver, the page, the
  pending callbacks with their ids and step index \<open>s\<close>, \<open>this.timeout\<close> and the
  next timer id; \<open>pb_step\<close> runs one event. A handler that throws (a
  \<open>TypeError\<close> of a missing cell, or an \<open>undefined\<close> step) stops at the throw:
  its callback is not rescheduled.

  The lemmas show that the callbacks, left alone, end in exactly the state the
  synchronous \<open>animate\<close> computes; that as long as \<open>animate\<close> is not started
  while a callback is pending, at most one callback is pending, it is the one
  \<open>this.timeout\<close> names, its index is inside the trace, and a stop or a load
  cancels it; that a stop after \<open>k\<close> callbacks leaves the first \<open>k\<close> steps
  played, in the order of the search; and that a second \<open>animate\<close> during playback leaves a callback that
  neither \<open>stopAnimation\<close> nor a load can cancel.
\<close>

section \<open>State and events\<close>

datatype event = Animate | Fire nat | Stop | Edit val nat nat | Load string | Solve

record pstate =
  sv :: solver
  pg :: page
  timers :: "(nat \<times> int) list"
  timeout :: "nat option"
  fresh :: nat

section \<open>Operations\<close>

text \<open>\<open>that.timeout = setTimeout(function () {...}, that.delay)\<close> inside
  \<open>animateLoop(s)\<close>: a new pending callback for index \<open>s\<close>, whose id is stored
  in \<open>this.timeout\<close>.\<close>

definition setTimeout :: "int \<Rightarrow> pstate \<Rightarrow> pstate" where
  "setTimeout s ps = ps\<lparr>timers := timers ps @ [(fresh ps, s)], timeout := Some (fresh ps),
                        fresh := Suc (fresh ps)\<rparr>"

text \<open>\<open>stopAnimation\<close>: \<open>window.clearTimeout(this.timeout)\<close>, which cancels the
  callback with that id if it is still pending and does nothing otherwise.\<close>

definition stopAnimation :: "pstate \<Rightarrow> pstate" where
  "stopAnimation ps =
     (case timeout ps of
        None \<Rightarrow> ps
      | Some t \<Rightarrow> ps\<lparr>timers := filter (\<lambda>x. fst x \<noteq> t) (timers ps)\<rparr>)"

text \<open>\<open>animate\<close>: the synchronous part, then \<open>animateLoop(this.solution.length-1)\<close>,
  which schedules the first callback. An exception of the synchronous part leaves
  nothing scheduled.\<close>

definition pb_animate :: "(rat \<Rightarrow> string) \<Rightarrow> pstate \<Rightarrow> pstate" where
  "pb_animate dec2hex ps =
     (case animate_begin dec2hex (sv ps) (pg ps) of
        Inl e \<Rightarrow> ps
      | Inr (st1, p1) \<Rightarrow> setTimeout (int (length (solution st1)) - 1) (ps\<lparr>sv := st1, pg := p1\<rparr>))"

text \<open>The callback with id \<open>t\<close> fires: with \<open>s >= 0\<close> it reads
  \<open>that.solution[s]\<close> from the current trace, runs \<open>doStep\<close> and
  \<open>animateLoop(s - 1)\<close>; with \<open>s < 0\<close> it calls the default \<open>complete\<close>,
  which does nothing. An index past the end of the trace reads \<open>undefined\<close>, and
  \<open>doStep(undefined)\<close> throws a \<open>TypeError\<close> at \<open>step.row\<close>. An id that is not
  pending does not fire.\<close>

definition fire :: "(rat \<Rightarrow> string) \<Rightarrow> nat \<Rightarrow> pstate \<Rightarrow> pstate" where
  "fire dec2hex t ps =
     (case map_of (timers ps) t of
        None \<Rightarrow> ps
      | Some s \<Rightarrow>
          (let ps1 = ps\<lparr>timers := filter (\<lambda>x. fst x \<noteq> t) (timers ps)\<rparr>
           in if s < 0 then ps1
              else if nat s < length (solution (sv ps)) then
                (case doStep dec2hex (solution (sv ps) ! nat s) (sv ps) (pg ps) of
                   Inl e \<Rightarrow> ps1
                 | Inr (st', p') \<Rightarrow> setTimeout (s - 1) (ps1\<lparr>sv := st', pg := p'\<rparr>))
              else ps1))"

text \<open>An edit: the whole of \<open>updateCell\<close>. An exception of \<open>allocate\<close> keeps
  the solver as mutated before the throw and skips the recolouring.\<close>

definition pb_edit :: "(rat \<Rightarrow> string) \<Rightarrow> val \<Rightarrow> nat \<Rightarrow> nat \<Rightarrow> pstate \<Rightarrow> pstate" where
  "pb_edit dec2hex v r c ps =
     (case updateCell v r c (sv ps) of
        Inl (e, st') \<Rightarrow> ps\<lparr>sv := st'\<rparr>
      | Inr st1 \<Rightarrow>
          (case colorRelatedCells dec2hex st1 (r, c) (truthy v) (pg ps) of
             Inl e \<Rightarrow> ps\<lparr>sv := st1\<rparr>
           | Inr p' \<Rightarrow> ps\<lparr>sv := st1, pg := p'\<rparr>))"

text \<open>A load: \<open>init\<close>, whose \<open>reset\<close> starts with \<open>stopAnimation\<close>, then the
  rendering. An exception keeps the solver as mutated before the throw.\<close>

definition pb_load :: "(rat \<Rightarrow> string) \<Rightarrow> string \<Rightarrow> pstate \<Rightarrow> pstate" where
  "pb_load dec2hex s ps =
     (let ps1 = stopAnimation ps in
      case init s (sv ps1) of
        Inl (e, st') \<Rightarrow> ps1\<lparr>sv := st'\<rparr>
      | Inr st1 \<Rightarrow>
          (case render_loaded dec2hex st1 (pg ps1) of
             Inl e \<Rightarrow> ps1\<lparr>sv := st1\<rparr>
           | Inr (st', p') \<Rightarrow> ps1\<lparr>sv := st', pg := p'\<rparr>))"

text \<open>A call of \<open>solve\<close>.\<close>

definition pb_solve :: "pstate \<Rightarrow> pstate" where
  "pb_solve ps = (case solve (sv ps) of None \<Rightarrow> ps | Some (b, st') \<Rightarrow> ps\<lparr>sv := st'\<rparr>)"

fun pb_step :: "(rat \<Rightarrow> string) \<Rightarrow> pstate \<Rightarrow> event \<Rightarrow> pstate" where
  "pb_step dec2hex ps Animate = pb_animate dec2hex ps"
| "pb_step dec2hex ps (Fire t) = fire dec2hex t ps"
| "pb_step dec2hex ps Stop = stopAnimation ps"
| "pb_step dec2hex ps (Edit v r c) = pb_edit dec2hex v r c ps"
| "pb_step dec2hex ps (Load s) = pb_load dec2hex s ps"
| "pb_step dec2hex ps Solve = pb_solve ps"

definition run :: "(rat \<Rightarrow> string) \<Rightarrow> pstate \<Rightarrow> event list \<Rightarrow> pstate" where
  "run dec2hex ps es = foldl (pb_step dec2hex) ps es"

section \<open>Single playback\<close>

text \<open>The discipline of a page that starts \<open>animate\<close> only when no callback is
  pending, the states it reaches, and what holds in them.\<close>

fun guarded :: "pstate \<Rightarrow> event \<Rightarrow> bool" where
  "guarded ps Animate = (timers ps = [])"
| "guarded ps _ = True"

inductive reach :: "(rat \<Rightarrow> string) \<Rightarrow> pstate \<Rightarrow> pstate \<Rightarrow> bool" for dec2hex s0 where
  reach_init: "reach dec2hex s0 s0"
| reach_step: "reach dec2hex s0 s \<Longrightarrow> guarded s e \<Longrightarrow> reach dec2hex s0 (pb_step dec2hex s e)"

definition playback_ok :: "pstate \<Rightarrow> bool" where
  "playback_ok ps =
     (length (timers ps) \<le> 1 \<and>
      list_all (\<lambda>x. timeout ps = Some (fst x) \<and> snd x < int (length (solution (sv ps)))) (timers ps))"

section \<open>Frame lemmas\<close>

lemma colorFixed_loop_solution:
  "colorFixed_loop dec2hex fs st p = Inr (st1, p1) \<Longrightarrow> solution st1 = solution st"
proof (induction fs arbitrary: st p)
  case Nil
  then show ?case by simp
next
  case (Cons f fs)
  obtain r c where rc: "key_coord f = (r, c)" by (cases "key_coord f")
  then show ?case using Cons by (auto simp: Let_def split: sum.splits)
qed

lemma animate_begin_solution:
  "animate_begin dec2hex st p = Inr (st1, p1) \<Longrightarrow> solution st1 = solution st"
  by (auto simp: animate_begin_def colorFixed_def Let_def dest: colorFixed_loop_solution)

lemma doStep_solution:
  "doStep dec2hex s st p = Inr (st', p') \<Longrightarrow> solution st' = solution st"
  by (auto simp: doStep_def Let_def split: step.splits if_splits sum.splits)

lemma init_cells_solution:
  "(init_cells ps st = Inr st' \<longrightarrow> solution st' = solution st) \<and>
   (init_cells ps st = Inl (e, st') \<longrightarrow> solution st' = solution st)"
proof (induction ps arbitrary: st)
  case Nil
  then show ?case by simp
next
  case (Cons p ps)
  obtain r c where p: "p = (r, c)" by (cases p)
  let ?st = "st\<lparr>fixed := insert (r, c) (fixed st)\<rparr>"
  show ?case
  proof (cases "allocate (cellv (matrix st) r c) r c ?st")
    case (Inl a)
    obtain e1 st1 where a: "a = (e1, st1)" by (cases a)
    have "solution st1 = solution st" using allocate_frame(2) [OF Inl [unfolded a]] by simp
    then show ?thesis using Inl a p Cons.IH [of st] by (auto simp: Let_def)
  next
    case (Inr st1)
    have "solution st1 = solution st" using allocate_frame(1) [OF Inr] by simp
    then show ?thesis using Inr p Cons.IH [of st] Cons.IH [of st1] by (auto simp: Let_def)
  qed
qed

lemma init_solution:
  "init s st = Inr st1 \<Longrightarrow> solution st1 = []"
  "init s st = Inl (e, st') \<Longrightarrow> solution st' = []"
  using init_cells_solution [of cells _ st1] init_cells_solution [of cells _ st' e]
  by (auto simp: init_def Let_def reset_def)

lemma render_loaded_solution:
  "render_loaded dec2hex st p = Inr (st', p') \<Longrightarrow> solution st' = solution st"
  by (auto simp: render_loaded_def renderNumbers_def colorFixed_def Let_def
      split: sum.splits dest: colorFixed_loop_solution)

lemma updateCell_solution:
  "updateCell v r c st = Inr st' \<Longrightarrow> solution st' = solution st"
  "updateCell v r c st = Inl (e, st') \<Longrightarrow> solution st' = solution st"
  by (auto simp: updateCell_def Let_def split: if_splits dest: allocate_frame)

lemma pb_edit_frame:
  "timers (pb_edit dec2hex v r c ps) = timers ps \<and> timeout (pb_edit dec2hex v r c ps) = timeout ps \<and>
   solution (sv (pb_edit dec2hex v r c ps)) = solution (sv ps)"
  by (auto simp: pb_edit_def dest: updateCell_solution split: sum.splits)

lemma pb_load_frame:
  "timers (pb_load dec2hex s ps) = timers (stopAnimation ps) \<and> solution (sv (pb_load dec2hex s ps)) = []"
proof (cases "init s (sv (stopAnimation ps))")
  case (Inl a)
  then show ?thesis using init_solution(2) [of s _ _ "snd a"] by (cases a) (simp add: pb_load_def)
next
  case (Inr st1)
  note s1 = init_solution(1) [OF Inr]
  show ?thesis
  proof (cases "render_loaded dec2hex st1 (pg (stopAnimation ps))")
    case (Inl e)
    then show ?thesis using Inr s1 by (simp add: pb_load_def)
  next
    case (Inr res)
    then show ?thesis using \<open>init s (sv (stopAnimation ps)) = Inr st1\<close> s1
      by (cases res) (auto simp: pb_load_def dest: render_loaded_solution)
  qed
qed

lemma pb_solve_frame:
  "timers (pb_solve ps) = timers ps \<and> timeout (pb_solve ps) = timeout ps \<and>
   (\<exists>new. solution (sv (pb_solve ps)) = solution (sv ps) @ new)"
  by (auto simp: pb_solve_def dest: solve_frame split: option.splits)

lemma pb_animate_idle:
  assumes "animate_begin dec2hex (sv ps) (pg ps) = Inr (st1, p1)"
  shows "pb_animate dec2hex ps =
    ps\<lparr>sv := st1, pg := p1, timers := timers ps @ [(fresh ps, int (length (solution (sv ps))) - 1)],
       timeout := Some (fresh ps), fresh := Suc (fresh ps)\<rparr>"
  using assms animate_begin_solution [OF assms] by (simp add: pb_animate_def setTimeout_def)

section \<open>Lemmas on single playback\<close>

lemma playback_ok_idle [simp]: "timers ps = [] \<Longrightarrow> playback_ok ps"
  by (simp add: playback_ok_def)

lemma playback_ok_frame:
  assumes "playback_ok ps" "timers ps' = timers ps" "timeout ps' = timeout ps"
    "solution (sv ps') = solution (sv ps) @ new"
  shows "playback_ok ps'"
  using assms by (fastforce simp: playback_ok_def list_all_iff)

lemma playback_ok_single:
  assumes "playback_ok ps" "(t, i) \<in> set (timers ps)"
  shows "timers ps = [(t, i)] \<and> timeout ps = Some t \<and> i < int (length (solution (sv ps)))"
proof -
  have "length (timers ps) \<le> 1" using assms(1) by (simp add: playback_ok_def)
  with assms(2) have "timers ps = [(t, i)]" by (cases "timers ps") auto
  with assms(1) show ?thesis by (simp add: playback_ok_def)
qed

lemma stop_idle: "playback_ok ps \<Longrightarrow> timers (stopAnimation ps) = []"
  by (cases "timers ps") (auto simp: playback_ok_def stopAnimation_def split: option.splits)

lemma fire_ok:
  assumes "playback_ok ps"
  shows "playback_ok (fire dec2hex t ps)"
proof (cases "map_of (timers ps) t")
  case None
  then show ?thesis using assms by (simp add: fire_def)
next
  case (Some i)
  then have "(t, i) \<in> set (timers ps)" by (rule map_of_SomeD)
  from playback_ok_single [OF assms this]
  have one: "timers ps = [(t, i)]" and lt: "i < int (length (solution (sv ps)))" by simp_all
  show ?thesis
    using Some one lt
    by (auto simp: fire_def Let_def setTimeout_def playback_ok_def
        dest: doStep_solution split: sum.splits)
qed

lemma step_ok:
  assumes "playback_ok ps" "guarded ps e"
  shows "playback_ok (pb_step dec2hex ps e)"
proof (cases e)
  case Animate
  then have "timers ps = []" using assms(2) by simp
  then show ?thesis using Animate
    by (auto simp: pb_animate_def setTimeout_def playback_ok_def
        dest: animate_begin_solution split: sum.splits)
next
  case (Fire t)
  then show ?thesis using fire_ok [OF assms(1)] by simp
next
  case Stop
  then show ?thesis using stop_idle [OF assms(1)] by simp
next
  case (Edit v r c)
  then show ?thesis using playback_ok_frame [OF assms(1), where new = "[]"] pb_edit_frame by simp
next
  case (Load s)
  then show ?thesis using stop_idle [OF assms(1)] pb_load_frame by simp
next
  case Solve
  then show ?thesis using playback_ok_frame [OF assms(1)] pb_solve_frame by fastforce
qed

lemma reach_ok: "reach dec2hex s0 s \<Longrightarrow> timers s0 = [] \<Longrightarrow> playback_ok s"
  by (induction rule: reach.induct) (simp_all add: step_ok)

section \<open>Lemmas on uninterrupted playback\<close>

lemma run_Cons [simp]: "run dec2hex ps (e # es) = run dec2hex (pb_step dec2hex ps e) es"
  by (simp add: run_def)

lemma run_Nil [simp]: "run dec2hex ps [] = ps"
  by (simp add: run_def)

lemma run_append [simp]: "run dec2hex ps (xs @ ys) = run dec2hex (run dec2hex ps xs) ys"
  by (simp add: run_def)

text \<open>Firing the pending callback \<open>n + 1\<close> times, each time the one the previous
  callback scheduled, runs \<open>animateLoop\<close> for \<open>n\<close> steps.\<close>

lemma fire_loop:
  assumes "animateLoop dec2hex n (sv ps) (pg ps) = Inr (st', p')" "n \<le> length (solution (sv ps))"
    "timers ps = [(t, int n - 1)]" "fresh ps = Suc t"
  shows "sv (run dec2hex ps (map Fire [t..<t + n + 1])) = st' \<and>
         pg (run dec2hex ps (map Fire [t..<t + n + 1])) = p' \<and>
         timers (run dec2hex ps (map Fire [t..<t + n + 1])) = [] \<and>
         fresh (run dec2hex ps (map Fire [t..<t + n + 1])) = Suc (t + n)"
  using assms
proof (induction n arbitrary: ps t)
  case 0
  then show ?case by (simp add: fire_def)
next
  case (Suc n)
  obtain st1 p1 where d: "doStep dec2hex (solution (sv ps) ! n) (sv ps) (pg ps) = Inr (st1, p1)"
    and l: "animateLoop dec2hex n st1 p1 = Inr (st', p')"
    using Suc.prems(1) by (auto split: sum.splits)
  let ?ps2 = "setTimeout (int n - 1) (ps\<lparr>timers := [], sv := st1, pg := p1\<rparr>)"
  have f: "pb_step dec2hex ps (Fire t) = ?ps2"
    using Suc.prems(2,3) d by (simp add: fire_def)
  have u: "[t..<t + Suc n + 1] = t # [Suc t..<Suc t + n + 1]" by (simp add: upt_conv_Cons)
  have "sv (run dec2hex ?ps2 (map Fire [Suc t..<Suc t + n + 1])) = st' \<and>
        pg (run dec2hex ?ps2 (map Fire [Suc t..<Suc t + n + 1])) = p' \<and>
        timers (run dec2hex ?ps2 (map Fire [Suc t..<Suc t + n + 1])) = [] \<and>
        fresh (run dec2hex ?ps2 (map Fire [Suc t..<Suc t + n + 1])) = Suc (Suc t + n)"
    using Suc.IH [of ?ps2 "Suc t"] l Suc.prems(2,4) doStep_solution [OF d]
    by (simp add: setTimeout_def)
  then show ?case using f u by simp
qed

text \<open>Firing the pending callback \<open>k\<close> times, on a table where every step
  writes an input box, plays the last \<open>k\<close> of the first \<open>m\<close> steps of the trace,
  from index \<open>m - 1\<close> down, and leaves the next callback pending.\<close>

lemma fire_prefix:
  assumes "board9 (pg ps)" "fits9 (matrix (sv ps))" "m \<le> length (solution (sv ps))"
    "\<forall>x \<in> set (take m (solution (sv ps))). step_at x \<in> set cells \<and> input_at (pg ps) (step_at x)"
    "timers ps = [(t, int m - 1)]" "fresh ps = Suc t" "k \<le> m"
  shows "sv (run dec2hex ps (map Fire [t..<t + k])) =
           applyUpdates (map step_upd (rev (drop (m - k) (take m (solution (sv ps)))))) (sv ps) \<and>
         timers (run dec2hex ps (map Fire [t..<t + k])) = [(t + k, int (m - k) - 1)] \<and>
         timeout (run dec2hex ps (map Fire [t..<t + k])) = (if k = 0 then timeout ps else Some (t + k))"
  using assms
proof (induction k arbitrary: ps t m)
  case 0
  then show ?case by simp
next
  case (Suc k)
  obtain m' where m: "m = Suc m'" using Suc.prems(7) by (cases m) auto
  obtain v r c where s: "solution (sv ps) ! m' = Step v r c" by (cases "solution (sv ps) ! m'") auto
  have tk: "take m (solution (sv ps)) = take m' (solution (sv ps)) @ [Step v r c]"
    using Suc.prems(3) s m by (simp add: take_Suc_conv_app_nth)
  have rc: "(r, c) \<in> set cells" "input_at (pg ps) (r, c)" using Suc.prems(4) tk by auto
  obtain p1 where p1: "doStep dec2hex (Step v r c) (sv ps) (pg ps) = Inr (updateOptions (key v) r c (sv ps), p1)"
    "shape p1 = shape (pg ps)" "\<forall>q. input_at p1 q = input_at (pg ps) q"
    using doStep_Inr [OF Suc.prems(1,2) rc] by blast
  let ?st1 = "updateOptions (key v) r c (sv ps)"
  let ?ps2 = "setTimeout (int m' - 1) (ps\<lparr>timers := [], sv := ?st1, pg := p1\<rparr>)"
  have f: "pb_step dec2hex ps (Fire t) = ?ps2"
    using Suc.prems(3,5) m s p1(1) by (simp add: fire_def)
  have H: "board9 (pg ?ps2)" "fits9 (matrix (sv ?ps2))" "m' \<le> length (solution (sv ?ps2))"
    "\<forall>x \<in> set (take m' (solution (sv ?ps2))). step_at x \<in> set cells \<and> input_at (pg ?ps2) (step_at x)"
    "timers ?ps2 = [(Suc t, int m' - 1)]" "fresh ?ps2 = Suc (Suc t)" "k \<le> m'"
    using Suc.prems m tk p1(2,3) by (simp_all add: setTimeout_def board9_def del: split_paired_All)
  have u: "[t..<t + Suc k] = t # [Suc t..<Suc t + k]" by (simp add: upt_conv_Cons)
  have d: "drop (m - Suc k) (take m (solution (sv ps))) =
      drop (m' - k) (take m' (solution (sv ps))) @ [Step v r c]"
    using tk m Suc.prems(3,7) by simp
  have r: "run dec2hex ps (map Fire [t..<t + Suc k]) = run dec2hex ?ps2 (map Fire [Suc t..<Suc t + k])"
    unfolding u using f by simp
  show ?case unfolding r using Suc.IH [OF H] Suc.prems(6) d m by (simp add: setTimeout_def)
qed

section \<open>Properties of playback\<close>

text \<open>C25. The timer-driven playback refines the synchronous model: when
  \<open>animate\<close> would run to the end without a \<open>TypeError\<close>, starting it from an
  idle page and then letting each pending callback fire, one after the other and
  with nothing in between, takes exactly one callback per step plus the final one
  that calls \<open>complete\<close>, ends with nothing pending, and leaves the solver and the
  page exactly as \<open>animate\<close> computes them.\<close>

theorem playback_refines_animate:
  assumes "animate dec2hex (sv ps) (pg ps) = Inr (st', p')" "timers ps = []"
  shows "let ps' = run dec2hex ps (Animate # map Fire [fresh ps..<fresh ps + length (solution (sv ps)) + 1])
         in sv ps' = st' \<and> pg ps' = p' \<and> timers ps' = []"
proof -
  obtain st1 p1 where b: "animate_begin dec2hex (sv ps) (pg ps) = Inr (st1, p1)"
    and l: "animateLoop dec2hex (length (solution st1)) st1 p1 = Inr (st', p')"
    using assms(1) by (auto simp: animate_def split: sum.splits)
  have sol: "solution st1 = solution (sv ps)" by (rule animate_begin_solution [OF b])
  let ?ps1 = "pb_animate dec2hex ps"
  have ps1: "sv ?ps1 = st1" "pg ?ps1 = p1" "timers ?ps1 = [(fresh ps, int (length (solution st1)) - 1)]"
    "fresh ?ps1 = Suc (fresh ps)"
    using pb_animate_idle [OF b] assms(2) sol by simp_all
  from fire_loop [of dec2hex "length (solution st1)" ?ps1 st' p' "fresh ps"] ps1 l sol
  show ?thesis by (simp add: Let_def)
qed

text \<open>C26. Single playback: as long as the page starts \<open>animate\<close> only when no
  callback is pending, in every state reached from an idle one by any interleaving
  of callbacks, stops, loads, edits and solves, a pending callback is the only one,
  it is the one \<open>this.timeout\<close> names, and its index lies inside the trace, so
  \<open>that.solution[s]\<close> never reads past its end.\<close>

theorem single_playback:
  assumes "reach dec2hex s0 s" "timers s0 = []" "(t, i) \<in> set (timers s)"
  shows "timers s = [(t, i)] \<and> timeout s = Some t \<and> i < int (length (solution (sv s)))"
  using playback_ok_single [OF reach_ok [OF assms(1,2)] assms(3)] .

text \<open>C27. Stopping works under single playback: in every such reachable state,
  \<open>stopAnimation\<close> and a load (through \<open>reset\<close>) leave no callback pending.\<close>

theorem stop_cancels:
  assumes "reach dec2hex s0 s" "timers s0 = []"
  shows "timers (pb_step dec2hex s Stop) = [] \<and> timers (pb_step dec2hex s (Load str)) = []"
  using stop_idle [OF reach_ok [OF assms]] pb_load_frame [of dec2hex str s] by simp

text \<open>C28. Starting \<open>animate\<close> while a playback is pending leaves the first
  playback running: \<open>this.timeout\<close> then names only the second chain, so
  \<open>stopAnimation\<close> cancels the second and the first callback stays pending, and a
  load cancels the same one and empties the trace, so that the stray callback, for a
  non-empty trace, reads \<open>that.solution[s]\<close> past its end.\<close>

theorem second_animate_not_stopped:
  assumes "timers ps = []" "animate_begin dec2hex (sv ps) (pg ps) = Inr (st1, p1)"
    "animate_begin dec2hex st1 p1 = Inr (st2, p2)"
  shows "timers (run dec2hex ps [Animate, Animate, Stop]) =
           [(fresh ps, int (length (solution (sv ps))) - 1)] \<and>
         timers (run dec2hex ps [Animate, Animate, Load str]) =
           [(fresh ps, int (length (solution (sv ps))) - 1)] \<and>
         solution (sv (run dec2hex ps [Animate, Animate, Load str])) = []"
proof -
  let ?n = "int (length (solution (sv ps))) - 1"
  have s1: "solution st1 = solution (sv ps)" by (rule animate_begin_solution [OF assms(2)])
  have a1: "pb_step dec2hex ps Animate = ps\<lparr>sv := st1, pg := p1, timers := [(fresh ps, ?n)],
       timeout := Some (fresh ps), fresh := Suc (fresh ps)\<rparr>"
    using pb_animate_idle [OF assms(2)] assms(1) by simp
  have a2: "timers (run dec2hex ps [Animate, Animate]) = [(fresh ps, ?n), (Suc (fresh ps), ?n)]"
    "timeout (run dec2hex ps [Animate, Animate]) = Some (Suc (fresh ps))"
    using a1 pb_animate_idle [of dec2hex "pb_step dec2hex ps Animate" st2 p2] assms(3) s1 by simp_all
  have "timers (stopAnimation (run dec2hex ps [Animate, Animate])) = [(fresh ps, ?n)]"
    using a2 by (simp add: stopAnimation_def)
  then show ?thesis using pb_load_frame [of dec2hex str "run dec2hex ps [Animate, Animate]"]
    by (simp add: run_def)
qed


text \<open>C29. Stopping mid-playback: on a rendered table where every step of the
  trace writes an input box, \<open>animate\<close> followed by \<open>k\<close> callbacks and
  \<open>stopAnimation\<close> leaves nothing pending and the candidate sets as the fixed
  cells and exactly the first \<open>k\<close> allocations of the search, in the order the
  search made them, leave them.\<close>

theorem stop_after_k_steps:
  assumes "board9 (pg ps)" "fits9 (matrix (sv ps))"
    "\<forall>x \<in> set (solution (sv ps)). step_at x \<in> set cells \<and> input_at (pg ps) (step_at x)"
    "timers ps = []" "k \<le> length (solution (sv ps))"
  shows "let ps' = run dec2hex ps (Animate # map Fire [fresh ps..<fresh ps + k] @ [Stop])
         in sv ps' = applyUpdates (map step_upd (rev (drop (length (solution (sv ps)) - k) (solution (sv ps)))))
                      (applyUpdates (fixed_upds (sv ps))
                        ((sv ps)\<lparr>row := replicate 9 numbers, column := replicate 9 numbers,
                                  quadrant := replicate 9 numbers\<rparr>)) \<and>
            timers ps' = []"
proof -
  let ?n = "length (solution (sv ps))"
  obtain st1 p1 where b: "animate_begin dec2hex (sv ps) (pg ps) = Inr (st1, p1)"
    "st1 = applyUpdates (fixed_upds (sv ps))
             ((sv ps)\<lparr>row := replicate 9 numbers, column := replicate 9 numbers,
                       quadrant := replicate 9 numbers\<rparr>)"
    "shape p1 = shape (pg ps)" "contents p1 = contents (pg ps)"
    using animate_begin_Inr [OF assms(1,2)] by blast
  let ?ps1 = "pb_step dec2hex ps Animate"
  have ps1: "sv ?ps1 = st1" "pg ?ps1 = p1" "timers ?ps1 = [(fresh ps, int ?n - 1)]"
    "fresh ?ps1 = Suc (fresh ps)" "timeout ?ps1 = Some (fresh ps)"
    using pb_animate_idle [OF b(1)] assms(4) by simp_all
  have H: "board9 (pg ?ps1)" "fits9 (matrix (sv ?ps1))" "?n \<le> length (solution (sv ?ps1))"
    "\<forall>x \<in> set (take ?n (solution (sv ?ps1))). step_at x \<in> set cells \<and> input_at (pg ?ps1) (step_at x)"
    using ps1 b(2,3) assms(1-3) input_at_contents [OF b(3,4)] by (simp_all add: board9_def)
  from fire_prefix [OF H ps1(3,4) assms(5)] ps1 b(2) show ?thesis
    by (simp add: Let_def stopAnimation_def)
qed

end
