(* ===== verification/Spec2Isabelle.thy ===== *)
theory Spec2Isabelle
  imports Playback
begin

text \<open>
  \<^bold>\<open>Verification of the Sudoku solver of remcoder/sudoku-colors.\<close>

  The program is one JavaScript object, \<open>SudokuSolver\<close> in \<open>src/solver.js\<close>.
  Its solving core has three parts that share the object's fields: the board state
  (\<open>matrix\<close>, \<open>fixed\<close>, the candidate families \<open>row\<close>, \<open>column\<close>,
  \<open>quadrant\<close>, the counter \<open>allocated\<close>, the trace \<open>solution\<close>), the
  constraint engine that keeps the candidate sets in step with the matrix
  (\<open>_calcOptions\<close>, \<open>updateOptions\<close>, \<open>allocate\<close>, \<open>unallocate\<close>), and the
  search driver (\<open>determineNextCell\<close>, \<open>solveCell\<close>, \<open>solve\<close>), which calls
  the engine and signals success through the exception \<open>allocate\<close> throws at the
  81st allocation. \<open>init\<close> and \<open>updateCell\<close> load a puzzle and edit a cell
  through the same engine. The rest of the file renders and animates the grid in a
  browser.

  \<^bold>\<open>Theories.\<close>
  \<^item> \<open>Prelude\<close>: the nested-array update \<open>set2\<close> (\<open>m[r][c] = v\<close>), the
    collections \<open>cell_simps\<close> and \<open>inv_defs\<close>, generic list lemmas.
  \<^item> \<open>Board\<close>: the JavaScript values of a cell (\<open>val\<close>: \<open>null\<close>, a number from
    \<open>parseInt\<close>, a string key from \<open>for ... in\<close>, \<open>NaN\<close>), strict equality
    \<open>js_eq\<close> and \<open>indexOf\<close>, the record \<open>solver\<close> of the object's fields,
    \<open>parse\<close>, \<open>reset\<close>, \<open>_getQuadrantNumber\<close>, \<open>isFixed\<close>, \<open>getQuadrant\<close>;
    and the grid notions the theorems use: the 27 \<open>units\<close>, \<open>consistent\<close>
    (no duplicate in a unit), \<open>is_solution\<close> and \<open>extends\<close>.
  \<^item> \<open>Engine\<close>: \<open>calcOptions\<close>, \<open>updateOptions\<close>, \<open>allocate\<close> (result
    \<open>Inl (SolvedException, st)\<close> when it throws), \<open>unallocate\<close> with its three
    \<open>indexOf\<close> scans; the invariant \<open>inv\<close> (well-formed 9x9 grid, consistent,
    each candidate set equal to the digits missing from its unit, counter equal to
    the number of filled cells, fixed cells filled) and the recomputed specification
    \<open>legal\<close>. Lemmas: \<open>calcOptions\<close> refines \<open>legal\<close>; \<open>allocate\<close> of a
    candidate and \<open>unallocate\<close> keep \<open>inv\<close>; \<open>unallocate\<close> after
    \<open>allocate\<close> restores the state.
  \<^item> \<open>Heuristic\<close>: \<open>determineNextCell\<close> as two nested scans (\<open>scan_rows\<close>,
    \<open>scan_cols\<close>) that thread \<open>best\<close> and the function-scoped
    \<open>countOptions\<close>, and the proof that they compute \<open>next_cell_spec\<close>.
  \<^item> \<open>Search\<close>: \<open>solveCell\<close> and its candidate loop \<open>tryNumbers\<close> as one
    mutually recursive function with fuel, \<open>solve\<close> (fuel 82), \<open>replay\<close> of a
    trace; soundness, completeness, termination and the trace.
  \<^item> \<open>Lifecycle\<close>: \<open>new_solver\<close>, \<open>init\<close> (its cell loop \<open>init_cells\<close>) and
    \<open>updateCell\<close>; \<open>valid_puzzle\<close> and the loop invariant \<open>init_inv\<close>; the
    lemmas that \<open>init\<close> of a valid puzzle establishes \<open>inv\<close> or, with 81 givens,
    throws, that printing the parsed grid gives the input back, and the shape of
    \<open>parse\<close> on any string.
  \<^item> \<open>Rendering\<close>: the page as a record \<open>page\<close> (\<open>_rendered\<close>, the table as a
    list of rows of cells with content, background and class, and the log of
    \<open>colorCell\<close> calls), \<open>renderTable\<close>, \<open>renderNumbers\<close>, \<open>colorFixed\<close>
    with the property names \<open>"r,c"\<close> of \<open>this.fixed\<close>, \<open>colorRelatedCells\<close>,
    \<open>colorCell\<close> and \<open>mergeColors\<close>. A missing table cell is a \<open>TypeError\<close>
    (\<open>Inl\<close>); \<open>Math2.dec2hex\<close> is a parameter. Lemmas: the table keeps its
    shape, the fixed-cell names decode back, the colours are bounded, exactly the
    21 related cells are recoloured.
  \<^item> \<open>Animation\<close>: \<open>doStep\<close>, the timer loop \<open>animateLoop\<close>, \<open>animate\<close>,
    and the page parts of \<open>init\<close> and \<open>updateCell\<close> (\<open>init_page\<close>,
    \<open>updateCell_page\<close>). Lemmas: loading never meets a missing cell and renders
    the table once; playback after a successful search runs without error and
    ends with every candidate set empty; typing a candidate keeps \<open>inv\<close>.
  \<^item> \<open>Playback\<close>: the browser timers of playback. The state \<open>pstate\<close> adds to
    the solver and the page the pending \<open>setTimeout\<close> callbacks (id and step index
    \<open>s\<close> of \<open>animateLoop(s)\<close>), \<open>this.timeout\<close> and the next timer id;
    \<open>pb_step\<close> runs one event: \<open>animate\<close> (\<open>pb_animate\<close>), a callback
    firing (\<open>fire\<close>), \<open>stopAnimation\<close>, a load (\<open>pb_load\<close>, whose
    \<open>reset\<close> stops the animation), an edit (\<open>pb_edit\<close>), a \<open>solve\<close>
    (\<open>pb_solve\<close>); \<open>reach\<close> is the set of states a page reaches when it
    starts \<open>animate\<close> only while nothing is pending. Lemmas: left alone, the
    callbacks end in the state of the synchronous \<open>animate\<close>; under that
    discipline at most one callback is pending, \<open>this.timeout\<close> names it and a
    stop or load cancels it; a stop after \<open>k\<close> callbacks leaves exactly the first
    \<open>k\<close> allocations of the search played; a second \<open>animate\<close> during playback leaves a chain
    that cannot be cancelled.
  \<^item> This theory: the fate of clashing givens and the end-to-end property of
    loading then solving, which span loading and search, and the witnesses: concrete
    runs on the spec's puzzles (the easy puzzle, a dead end, a puzzle with a repeated
    given, a typed digit beside a given, a short input) that instantiate each
    theorem's hypotheses.

  \<^bold>\<open>Fuel.\<close> \<open>solveCell\<close> recurses once per allocation into an empty cell, and a
  failed branch is undone before the next candidate, so the nesting depth is at most
  the number of empty cells, at most 81. \<open>solve\<close> gives 82 units, and
  \<open>Search.solve_terminates\<close> proves it never runs out from a state satisfying
  \<open>inv\<close>. The other loops are structural recursions over lists.

  \<^bold>\<open>Main results.\<close> From a state satisfying \<open>inv\<close> with an empty cell:
  success yields a complete grid that is a Sudoku solution and keeps every filled
  cell (\<open>Search.solve_sound\<close>); failure means no solution extends the grid and
  the state is restored (\<open>Search.solve_complete\<close>); whenever a solution exists,
  \<open>solve\<close> succeeds (\<open>Search.solve_finds_solution\<close>). Loading a valid puzzle
  establishes \<open>inv\<close> (\<open>Lifecycle.init_loads\<close>), so loading then solving decides
  solvability (\<open>load_and_solve\<close>), and playing the trace back on the page
  ends with all candidates used (\<open>Animation.animate_after_solve\<close>); the
  timer-driven playback refines that synchronous model
  (\<open>Playback.playback_refines_animate\<close>). The engine's
  round trip, refinement and invariant lemmas are
  \<open>Engine.allocate_unallocate_roundtrip\<close>, \<open>Engine.calcOptions_exact\<close>,
  \<open>Engine.allocate_preserves_inv\<close>, \<open>Engine.unallocate_inv\<close>.

  \<^bold>\<open>Findings.\<close> \<open>determineNextCell\<close> is not the minimum-remaining-values
  heuristic (\<open>min\<close> is never updated): it picks the first cell with one candidate,
  else the last cell with any (\<open>Heuristic.determineNextCell_scan\<close>). \<open>init\<close>
  checks neither the givens nor the input: a puzzle whose givens repeat a digit is
  loaded, and any success \<open>solve\<close> then reports is an invalid grid
  (\<open>clashing_givens_never_solved\<close>); every non-empty string shorter than 81
  characters is loaded without an error (\<open>Lifecycle.init_accepts_short_input\<close>).
  A puzzle with 81 givens makes \<open>init\<close> throw \<open>SolvedException\<close>
  (\<open>Lifecycle.init_full_throws\<close>). \<open>unallocate\<close> compares with strict
  equality, so retracting a string digit does not see the same digit held as a number
  by a given, and gives the digit back although the given still holds it
  (\<open>Engine.retract_type_confusion\<close>). \<open>mergeColors\<close>
  hands \<open>dec2hex\<close> fractional values for odd counts; \<open>colorFixed\<close> decodes
  coordinates from single characters of \<open>"r,c"\<close>. \<open>this.timeout\<close> keeps only
  the newest timer: an \<open>animate\<close> started during playback leaves the older
  callback chain running, out of reach of \<open>stopAnimation\<close> and of \<open>reset\<close>.

  \<^bold>\<open>Events.\<close> The browser may run any event between two callbacks, and any
  pending callback may fire next; \<open>pb_step\<close> takes the event as an argument, so
  every interleaving is a list of events given to \<open>run\<close>, and the lemmas on
  \<open>reach\<close> quantify over all of them. The delay of 150 ms is not modelled:
  it only spaces the callbacks out in time. A handler that throws keeps the solver
  as mutated before the throw in \<open>pb_edit\<close> and \<open>pb_load\<close>; a
  \<open>TypeError\<close> inside \<open>doStep\<close>, \<open>colorFixed\<close> or the rendering is
  modelled as leaving solver and page as they were, which happens only on a page
  without the 9-by-9 table that loading renders.

  \<^bold>\<open>Not modelled.\<close> The transient yellow flash of a highlighted cell, which
  the final colour overwrites in the same callback, is recorded only as a flag of the
  \<open>colorCell\<close> log. The \<open>complete\<close> argument of \<open>animate\<close> is taken as
  its default, a function that does nothing; no caller in the repository passes one.
  \<open>_calcNecessaryOptions\<close> and \<open>getOptions\<close> are never called, and
  \<open>_updateAllOptions\<close> loops over the never-assigned \<open>allOptions\<close> and does
  nothing. The external \<open>Set\<close> library is modelled by HOL sets with ascending key
  enumeration, \<open>fill\<close> by \<open>replicate\<close>, \<open>Math2.dec2hex\<close> by a parameter;
  \<open>init\<close> calls the global \<open>solver.reset()\<close>, modelled as the object's own
  \<open>reset\<close>. The iteration order of \<open>this.fixed\<close> is taken as row-major, the
  order in which \<open>init\<close>, its only writer, inserts the names.
\<close>

section \<open>Concrete puzzles\<close>

text \<open>The "easy" published Sudoku of the spec and its unique solution.\<close>

definition easy_puzzle :: string where
  "easy_puzzle =
     ''53__7____6__195____98____6_8___6___34__8_3__17___2___6_6____28____419__5____8__79''"

definition easy_solution :: string where
  "easy_solution =
     ''534678912672195348198342567859761423426853791713924856961537284287419635345286179''"

definition state_of :: "(exn \<times> solver) + solver \<Rightarrow> solver" where
  "state_of res = (case res of Inr st \<Rightarrow> st | Inl (_, st) \<Rightarrow> st)"

definition easy_state :: solver where
  "easy_state = state_of (init easy_puzzle new_solver)"

definition easy_solved :: solver where
  "easy_solved = snd (the (solve easy_state))"

text \<open>The state after allocating 4 at row 0, column 2 of the easy puzzle.\<close>

definition easy_alloc :: solver where
  "easy_alloc = projr (allocate (Key 4) 0 2 easy_state)"

text \<open>The solution with cell (1,8) changed to 2 and cells (0,8), (1,2) emptied: the
  givens are consistent but both empty cells have no candidate.\<close>

definition dead_end_puzzle :: string where
  "dead_end_puzzle =
     ''53467891_67_195342198342567859761423426853791713924856961537284287419635345286179''"

definition dead_end_state :: solver where
  "dead_end_state = state_of (init dead_end_puzzle new_solver)"

definition empty_puzzle :: string where
  "empty_puzzle = replicate 81 CHR ''_''"

definition empty_state :: solver where
  "empty_state = state_of (init empty_puzzle new_solver)"

text \<open>The solution with cell (0,1) changed to a second 5 and cell (8,8) emptied.\<close>

definition duplicate_puzzle :: string where
  "duplicate_puzzle =
     ''554678912672195348198342567859761423426853791713924856961537284287419635345286_7_''"

definition duplicate_state :: solver where
  "duplicate_state = state_of (init duplicate_puzzle new_solver)"

definition duplicate_solved :: solver where
  "duplicate_solved = snd (the (solve duplicate_state))"

text \<open>A given 5 at (0,0), and the string "5" typed at (0,1) with \<open>updateCell\<close>.\<close>

definition typed_state :: solver where
  "typed_state = state_of (init (CHR ''5'' # replicate 80 CHR ''_'') new_solver)"

definition typed_in_state :: solver where
  "typed_in_state = state_of (updateCell (Key 5) 0 1 typed_state)"

text \<open>A stand-in for the external \<open>Math2.dec2hex\<close> in the concrete runs of the
  page; the properties hold for every such function.\<close>

definition no_hex :: "rat \<Rightarrow> string" where
  "no_hex x = []"

text \<open>An input that is not a puzzle: three characters.\<close>

definition short_input :: string where
  "short_input = ''12_''"

text \<open>A page with the given solver and table and no timer scheduled yet.\<close>

definition idle :: "solver \<Rightarrow> page \<Rightarrow> pstate" where
  "idle st p = \<lparr>sv = st, pg = p, timers = [], timeout = None, fresh = 0\<rparr>"

section \<open>Runs of the solver on the concrete puzzles\<close>

lemma easy_run:
  "inv easy_state \<and> allocated easy_state \<noteq> 81 \<and> solve easy_state = Some (True, easy_solved)"
  by code_simp

lemma easy_page:
  "\<exists>p1. init_page no_hex easy_puzzle new_solver empty_page = Inr (easy_state, p1) \<and> board9 p1 \<and>
     fits9 (matrix easy_solved) \<and>
     (\<forall>x \<in> set (solution easy_solved). step_at x \<in> set cells \<and> input_at p1 (step_at x)) \<and>
     length (solution easy_solved) = 51"
proof -
  have h: "valid_puzzle easy_puzzle" "consistent (parse easy_puzzle)"
    "length (filter (filled (parse easy_puzzle)) cells) < 81" "page_ok empty_page"
    "init easy_puzzle new_solver = Inr easy_state"
    by code_simp+
  have inv: "inv easy_state" and s: "solve easy_state = Some (True, easy_solved)"
    using easy_run by simp_all
  obtain p1 where "init_page no_hex easy_puzzle new_solver empty_page =
      Inr (applyUpdates (fixed_upds easy_state) easy_state, p1)"
    using init_page_Inr [OF h(4,5), of no_hex] by blast
  then have ld: "init_page no_hex easy_puzzle new_solver empty_page = Inr (easy_state, p1)"
    by (simp add: applyUpdates_fixed_inv [OF inv])
  have e: "empty_cells (parse easy_puzzle) = 51" by code_simp
  from solved_playable [OF h(1-4) ld s] ld e show ?thesis
    unfolding solved_from_def by auto
qed

lemma easy_alloc_run:
  "inv easy_state \<and> cellv (matrix easy_state) 0 2 = Null \<and> 4 \<in> calcOptions easy_state 0 2 \<and>
   allocate (Key 4) 0 2 easy_state = Inr easy_alloc"
  by code_simp

lemma dead_end_run:
  "inv dead_end_state \<and> allocated dead_end_state \<noteq> 81 \<and>
   solve dead_end_state = Some (False, dead_end_state)"
  by code_simp

lemma duplicate_run:
  "solve duplicate_state = Some (True, duplicate_solved)"
  by code_simp

section \<open>Scenarios and findings\<close>

text \<open>C11. Givens are not validated, and a clash among them is never resolved: a
  valid puzzle string whose givens repeat a digit in a row, column or block is loaded
  by \<open>init\<close> without an error, and whenever \<open>solve\<close> then reports success the
  resulting grid is not a Sudoku solution, because the search never changes a given.
  The specification asks for rejection or \<open>Unsolvable\<close>; the witness shows a
  reported success.\<close>

theorem clashing_givens_never_solved:
  assumes "valid_puzzle s" "\<not> consistent (parse s)" "length (filter (filled (parse s)) cells) < 81"
  shows "\<exists>st1. init s st = Inr st1 \<and> matrix st1 = parse s \<and>
           (\<forall>st2. solve st1 = Some (True, st2) \<longrightarrow> \<not> is_solution (grid_of (matrix st2)))"
proof -
  obtain st1 where ld: "init s st = Inr st1" and I: "init_inv (parse s) cells st1"
    using init_valid [OF assms(1,3)] by blast
  have m: "matrix st1 = parse s" using I by (simp add: init_inv_def)
  have "\<not> is_solution (grid_of (matrix st2))" if "solve st1 = Some (True, st2)" for st2
    using clash_not_solution [OF assms(2)] solve_keeps_filled [OF that] m by simp
  with ld m show ?thesis by blast
qed

section \<open>Loading and solving together\<close>

text \<open>C14. Loading then solving, as the page does: for a valid puzzle string whose
  givens do not clash and that leaves a cell empty, \<open>init\<close> returns normally,
  \<open>solve\<close> returns, it reports success exactly when some Sudoku solution agrees with
  the givens, and on success the matrix is such a solution.\<close>

theorem load_and_solve:
  assumes "valid_puzzle s" "consistent (parse s)" "length (filter (filled (parse s)) cells) < 81"
  shows "\<exists>st' b st''. init s st = Inr st' \<and> solve st' = Some (b, st'') \<and>
           (b = (\<exists>g. is_solution g \<and> extends (parse s) g)) \<and>
           (b \<longrightarrow> is_solution (grid_of (matrix st'')) \<and> extends (parse s) (grid_of (matrix st'')))"
proof -
  have wf: "wf_grid (parse s)" using assms(1) by (rule valid_puzzle_wf)
  obtain st' where ld: "init s st = Inr st'" and I: "init_inv (parse s) cells st'"
    using init_valid [OF assms(1,3)] by blast
  have inv: "inv st'" using init_inv_inv [OF wf assms(2) I] .
  have "allocated st' \<noteq> 81" "matrix st' = parse s" using I by (simp_all add: init_inv_def)
  with solve_outcome [OF inv] ld show ?thesis by auto
qed

section \<open>Witnesses\<close>

theorem solve_sound_witness:
  "inv easy_state \<and> allocated easy_state \<noteq> 81 \<and> solve easy_state = Some (True, easy_solved) \<and>
   is_solution (grid_of (matrix easy_solved)) \<and>
   extends (matrix easy_state) (grid_of (matrix easy_solved))"
  using easy_run solve_sound [of easy_state easy_solved] by simp

theorem solve_complete_witness:
  "inv dead_end_state \<and> allocated dead_end_state \<noteq> 81 \<and>
   solve dead_end_state = Some (False, dead_end_state) \<and>
   \<not> (\<exists>g. is_solution g \<and> extends (matrix dead_end_state) g)"
  using dead_end_run solve_complete [of dead_end_state dead_end_state] by simp

text \<open>The spec's empty-grid scenario: the empty puzzle is solved, because the easy
  puzzle's solution extends it.\<close>

theorem solve_finds_solution_witness:
  "inv empty_state \<and> allocated empty_state \<noteq> 81 \<and>
   is_solution (grid_of (parse easy_solution)) \<and>
   extends (matrix empty_state) (grid_of (parse easy_solution)) \<and>
   (\<exists>st'. solve empty_state = Some (True, st'))"
proof -
  have h: "inv empty_state" "allocated empty_state \<noteq> 81"
    "is_solution (grid_of (parse easy_solution))"
    "extends (matrix empty_state) (grid_of (parse easy_solution))"
    by code_simp+
  show ?thesis using h solve_finds_solution [OF h] by simp
qed

theorem solve_terminates_witness:
  "inv easy_state \<and> (\<exists>res. solve easy_state = Some res)"
  using easy_run solve_terminates [of easy_state] by simp

theorem roundtrip_witness:
  "inv easy_state \<and> cellv (matrix easy_state) 0 2 = Null \<and> 4 \<in> calcOptions easy_state 0 2 \<and>
   allocate (Key 4) 0 2 easy_state = Inr easy_alloc \<and>
   unallocate (Key 4) 0 2 easy_alloc = easy_state\<lparr>cycles := Suc (cycles easy_state)\<rparr>"
  using easy_alloc_run allocate_unallocate_roundtrip [of easy_state 0 2 4 easy_alloc] by simp

theorem calcOptions_exact_witness:
  "inv easy_state \<and> calcOptions easy_state 0 2 = {1, 2, 4} \<and>
   (4 \<in> calcOptions easy_state 0 2) =
     (4 \<in> numbers \<and>
      (\<forall>p \<in> set cells. filled (matrix easy_state) p \<and>
         (fst p = 0 \<or> snd p = 2 \<or> quadrantNumber (fst p) (snd p) = quadrantNumber 0 2) \<longrightarrow>
         digit (matrix easy_state) p \<noteq> 4))"
proof -
  have "calcOptions easy_state 0 2 = {1, 2, 4}" by code_simp
  then show ?thesis
    using easy_alloc_run calcOptions_exact [of easy_state 0 2 4] by simp
qed

theorem allocate_preserves_inv_witness:
  "inv easy_state \<and> allocate (Key 4) 0 2 easy_state = Inr easy_alloc \<and>
   inv easy_alloc \<and> cellv (matrix easy_alloc) 0 2 = Key 4 \<and>
   allocated easy_alloc = allocated easy_state + 1"
  using easy_alloc_run allocate_preserves_inv [of easy_state 0 2 4 easy_alloc] by simp

theorem unallocate_inv_witness:
  "inv easy_alloc \<and> cellv (matrix easy_alloc) 0 2 = Key 4 \<and> (0, 2) \<notin> fixed easy_alloc \<and>
   inv (unallocate (Key 4) 0 2 easy_alloc)"
proof -
  have h: "inv easy_alloc" "cellv (matrix easy_alloc) 0 2 = Key 4" "(0, 2) \<notin> fixed easy_alloc"
    by code_simp+
  show ?thesis using h unallocate_inv [OF h(1) _ _ h(2) _ h(3)] by simp
qed

theorem solve_trace_witness:
  "inv easy_state \<and> allocated easy_state \<noteq> 81 \<and> solve easy_state = Some (True, easy_solved) \<and>
   (\<exists>new. solution easy_solved = solution easy_state @ new \<and>
      replay (rev new) (matrix easy_state) = matrix easy_solved \<and>
      length new = empty_cells (matrix easy_state))"
  using easy_run solve_trace [of easy_state easy_solved] by simp

theorem init_loads_witness:
  "valid_puzzle easy_puzzle \<and> consistent (parse easy_puzzle) \<and>
   length (filter (filled (parse easy_puzzle)) cells) < 81 \<and>
   (\<exists>st'. init easy_puzzle new_solver = Inr st' \<and> inv st' \<and> matrix st' = parse easy_puzzle)"
proof -
  have h: "valid_puzzle easy_puzzle" "consistent (parse easy_puzzle)"
    "length (filter (filled (parse easy_puzzle)) cells) < 81"
    by code_simp+
  show ?thesis using h Lifecycle.init_loads [OF h, of new_solver] by blast
qed

theorem load_and_solve_witness:
  "valid_puzzle dead_end_puzzle \<and> consistent (parse dead_end_puzzle) \<and>
   length (filter (filled (parse dead_end_puzzle)) cells) < 81 \<and>
   (\<exists>st' st''. init dead_end_puzzle new_solver = Inr st' \<and> solve st' = Some (False, st'') \<and>
      \<not> (\<exists>g. is_solution g \<and> extends (parse dead_end_puzzle) g))"
proof -
  have h: "valid_puzzle dead_end_puzzle" "consistent (parse dead_end_puzzle)"
    "length (filter (filled (parse dead_end_puzzle)) cells) < 81"
    by code_simp+
  have "init dead_end_puzzle new_solver = Inr dead_end_state"
    by code_simp
  moreover have "solve dead_end_state = Some (False, dead_end_state)"
    using dead_end_run by simp
  ultimately show ?thesis using h load_and_solve [OF h, of new_solver] by fastforce
qed

theorem parse_roundtrip_witness:
  "valid_puzzle easy_puzzle \<and> unparse (parse easy_puzzle) = easy_puzzle"
proof -
  have h: "valid_puzzle easy_puzzle" by code_simp
  show ?thesis using h Lifecycle.parse_roundtrip [OF h] by simp
qed

theorem init_full_throws_witness:
  "valid_puzzle easy_solution \<and> length (filter (filled (parse easy_solution)) cells) = 81 \<and>
   (\<exists>st'. init easy_solution new_solver = Inl (SolvedException, st') \<and> allocated st' = 81)"
proof -
  have h: "valid_puzzle easy_solution" "length (filter (filled (parse easy_solution)) cells) = 81"
    by code_simp+
  show ?thesis using h Lifecycle.init_full_throws [OF h, of new_solver] by blast
qed

theorem fixed_key_roundtrip_witness:
  "key_coord (fixed_key (3, 8)) = (3, 8)"
  using Rendering.fixed_key_roundtrip by (simp add: set_cells)

theorem colour_channel_bounds_witness:
  "inv easy_state \<and> 51 / 2 \<le> channel (card (column easy_state ! 2)) \<and>
   channel (card (column easy_state ! 2)) \<le> 255"
  using easy_run Rendering.colour_channel_bounds [of easy_state 0 2] by simp

theorem colorRelatedCells_paints_witness:
  "board9 (renderTable empty_page) \<and> wf_grid (matrix easy_state) \<and>
   (\<exists>p'. colorRelatedCells no_hex easy_state (0, 2) True (renderTable empty_page) = Inr p' \<and>
      length (painted p') = 21)"
proof -
  have h: "board9 (renderTable empty_page)" "wf_grid (matrix easy_state)" "(0, 2) \<in> set cells"
    by code_simp+
  have "painted (renderTable empty_page) = []" by (simp add: renderTable_def empty_page_def)
  with h Rendering.colorRelatedCells_paints [OF h, of no_hex True] show ?thesis by auto
qed

theorem init_page_safe_witness:
  "page_ok empty_page \<and> init easy_puzzle new_solver = Inr easy_state \<and>
   (\<exists>st' p'. init_page no_hex easy_puzzle new_solver empty_page = Inr (st', p') \<and> page_ok p')"
proof -
  have h: "page_ok empty_page" "init easy_puzzle new_solver = Inr easy_state" by code_simp+
  show ?thesis using h Animation.init_page_safe [OF h, of no_hex] by blast
qed

theorem animate_after_solve_witness:
  "valid_puzzle easy_puzzle \<and> consistent (parse easy_puzzle) \<and>
   length (filter (filled (parse easy_puzzle)) cells) < 81 \<and> page_ok empty_page \<and>
   solve easy_state = Some (True, easy_solved) \<and>
   (\<exists>p1. init_page no_hex easy_puzzle new_solver empty_page = Inr (easy_state, p1) \<and>
      (\<exists>st3 p3. animate no_hex easy_solved p1 = Inr (st3, p3) \<and> row st3 ! 0 = {}))"
proof -
  have h: "valid_puzzle easy_puzzle" "consistent (parse easy_puzzle)"
    "length (filter (filled (parse easy_puzzle)) cells) < 81" "page_ok empty_page"
    "init easy_puzzle new_solver = Inr easy_state"
    by code_simp+
  have inv: "inv easy_state" and s: "solve easy_state = Some (True, easy_solved)"
    using easy_run by simp_all
  obtain p1 where p1: "init_page no_hex easy_puzzle new_solver empty_page =
      Inr (applyUpdates (fixed_upds easy_state) easy_state, p1)"
    using init_page_Inr [OF h(4,5), of no_hex] by blast
  then have ld: "init_page no_hex easy_puzzle new_solver empty_page = Inr (easy_state, p1)"
    by (simp add: applyUpdates_fixed_inv [OF inv])
  show ?thesis using h s ld Animation.animate_after_solve [OF h(1-4) ld s] by auto
qed

theorem updateCell_candidate_witness:
  "inv easy_state \<and> board9 (renderTable empty_page) \<and> cellv (matrix easy_state) 0 2 = Null \<and>
   4 \<in> calcOptions easy_state 0 2 \<and> allocated easy_state + 1 \<noteq> 81 \<and>
   (\<exists>st' p'. updateCell_page no_hex (Key 4) 0 2 easy_state (renderTable empty_page) = Inr (st', p') \<and>
      inv st' \<and> cellv (matrix st') 0 2 = Key 4)"
proof -
  have a: "allocated easy_state + 1 \<noteq> 81" "board9 (renderTable empty_page)" by code_simp+
  have h: "inv easy_state" "board9 (renderTable empty_page)" "(0::nat) < 9" "(2::nat) < 9"
    "cellv (matrix easy_state) 0 2 = Null" "4 \<in> calcOptions easy_state 0 2"
    "allocated easy_state + 1 \<noteq> 81"
    using easy_alloc_run a by simp_all
  show ?thesis using h Animation.updateCell_candidate [OF h, of no_hex] by auto
qed

theorem playback_refines_animate_witness:
  "\<exists>p1. init_page no_hex easy_puzzle new_solver empty_page = Inr (easy_state, p1) \<and>
     (\<exists>st' p'. animate no_hex easy_solved p1 = Inr (st', p') \<and>
        (let ps' = run no_hex (idle easy_solved p1) (Animate # map Fire [0..<length (solution easy_solved) + 1])
         in sv ps' = st' \<and> pg ps' = p' \<and> timers ps' = []))"
proof -
  obtain p1 where p1: "init_page no_hex easy_puzzle new_solver empty_page = Inr (easy_state, p1)"
    "board9 p1" "fits9 (matrix easy_solved)"
    "\<forall>x \<in> set (solution easy_solved). step_at x \<in> set cells \<and> input_at p1 (step_at x)"
    using easy_page by blast
  obtain st' p' where a: "animate no_hex easy_solved p1 = Inr (st', p')"
    using animate_Inr [OF p1(2-4), of no_hex] by blast
  have "let ps' = run no_hex (idle easy_solved p1) (Animate # map Fire [0..<length (solution easy_solved) + 1])
        in sv ps' = st' \<and> pg ps' = p' \<and> timers ps' = []"
    using Playback.playback_refines_animate [of no_hex "idle easy_solved p1" st' p'] a
    by (simp add: idle_def)
  with p1(1) a show ?thesis by blast
qed

theorem single_playback_witness:
  "reach no_hex (idle new_solver empty_page) (pb_step no_hex (idle new_solver empty_page) Animate) \<and>
   timers (idle new_solver empty_page) = [] \<and>
   (0, -1) \<in> set (timers (pb_step no_hex (idle new_solver empty_page) Animate)) \<and>
   timers (pb_step no_hex (idle new_solver empty_page) Animate) = [(0, -1)] \<and>
   timeout (pb_step no_hex (idle new_solver empty_page) Animate) = Some 0"
proof -
  have r: "reach no_hex (idle new_solver empty_page) (pb_step no_hex (idle new_solver empty_page) Animate)"
    by (rule reach_step [OF reach_init]) (simp add: idle_def)
  have t: "(0, -1) \<in> set (timers (pb_step no_hex (idle new_solver empty_page) Animate))"
    by (simp add: idle_def pb_animate_def animate_begin_def colorFixed_def fixed_keys_def
        setTimeout_def new_solver_def)
  have "timers (idle new_solver empty_page) = []" by (simp add: idle_def)
  with Playback.single_playback [OF r this t] r t show ?thesis by simp
qed

theorem stop_cancels_witness:
  "reach no_hex (idle new_solver empty_page) (pb_step no_hex (idle new_solver empty_page) Animate) \<and>
   timers (idle new_solver empty_page) = [] \<and>
   timers (pb_step no_hex (idle new_solver empty_page) Animate) \<noteq> [] \<and>
   timers (pb_step no_hex (pb_step no_hex (idle new_solver empty_page) Animate) Stop) = [] \<and>
   timers (pb_step no_hex (pb_step no_hex (idle new_solver empty_page) Animate) (Load easy_puzzle)) = []"
proof -
  have r: "reach no_hex (idle new_solver empty_page) (pb_step no_hex (idle new_solver empty_page) Animate)"
    by (rule reach_step [OF reach_init]) (simp add: idle_def)
  have t: "timers (pb_step no_hex (idle new_solver empty_page) Animate) \<noteq> []"
    by (simp add: idle_def pb_animate_def animate_begin_def colorFixed_def fixed_keys_def
        setTimeout_def new_solver_def)
  have "timers (idle new_solver empty_page) = []" by (simp add: idle_def)
  with Playback.stop_cancels [OF r this, of easy_puzzle] r t show ?thesis by simp
qed

theorem second_animate_not_stopped_witness:
  "\<exists>p1. init_page no_hex easy_puzzle new_solver empty_page = Inr (easy_state, p1) \<and>
     timers (run no_hex (idle easy_solved p1) [Animate, Animate, Stop]) =
       [(0, int (length (solution easy_solved)) - 1)] \<and>
     timers (run no_hex (idle easy_solved p1) [Animate, Animate, Load easy_puzzle]) =
       [(0, int (length (solution easy_solved)) - 1)] \<and>
     solution (sv (run no_hex (idle easy_solved p1) [Animate, Animate, Load easy_puzzle])) = []"
proof -
  obtain p1 where p1: "init_page no_hex easy_puzzle new_solver empty_page = Inr (easy_state, p1)"
    "board9 p1" "fits9 (matrix easy_solved)"
    using easy_page by blast
  obtain st1 q1 where b1: "animate_begin no_hex easy_solved p1 = Inr (st1, q1)"
    "matrix st1 = matrix easy_solved" "shape q1 = shape p1"
    using animate_begin_Inr [OF p1(2,3), of no_hex] by auto
  have "board9 q1" "fits9 (matrix st1)" using b1(2,3) p1(2,3) by (simp_all add: board9_def)
  then obtain st2 q2 where b2: "animate_begin no_hex st1 q1 = Inr (st2, q2)"
    using animate_begin_Inr [of q1 st1 no_hex] by blast
  have "timers (idle easy_solved p1) = []" by (simp add: idle_def)
  from Playback.second_animate_not_stopped [OF this _ b2, of easy_puzzle] b1(1) p1(1)
  show ?thesis by (simp add: idle_def)
qed


theorem stop_after_k_steps_witness:
  "\<exists>p1. init_page no_hex easy_puzzle new_solver empty_page = Inr (easy_state, p1) \<and>
     (let ps' = run no_hex (idle easy_solved p1) (Animate # map Fire [0..<3] @ [Stop])
      in sv ps' = applyUpdates (map step_upd (rev (drop 48 (solution easy_solved))))
                    (applyUpdates (fixed_upds easy_solved)
                      (easy_solved\<lparr>row := replicate 9 numbers, column := replicate 9 numbers,
                                    quadrant := replicate 9 numbers\<rparr>)) \<and>
         timers ps' = [])"
proof -
  obtain p1 where p1: "init_page no_hex easy_puzzle new_solver empty_page = Inr (easy_state, p1)"
    "board9 p1" "fits9 (matrix easy_solved)"
    "\<forall>x \<in> set (solution easy_solved). step_at x \<in> set cells \<and> input_at p1 (step_at x)"
    "length (solution easy_solved) = 51"
    using easy_page by blast
  have h: "board9 (pg (idle easy_solved p1))" "fits9 (matrix (sv (idle easy_solved p1)))"
    "\<forall>x \<in> set (solution (sv (idle easy_solved p1))).
       step_at x \<in> set cells \<and> input_at (pg (idle easy_solved p1)) (step_at x)"
    "timers (idle easy_solved p1) = []" "3 \<le> length (solution (sv (idle easy_solved p1)))"
    using p1(2-5) by (simp_all add: idle_def)
  from Playback.stop_after_k_steps [OF h, of no_hex] p1(1,5) show ?thesis
    by (simp add: idle_def)
qed


theorem clashing_givens_never_solved_witness:
  "valid_puzzle duplicate_puzzle \<and> \<not> consistent (parse duplicate_puzzle) \<and>
   length (filter (filled (parse duplicate_puzzle)) cells) < 81 \<and>
   init duplicate_puzzle new_solver = Inr duplicate_state \<and>
   solve duplicate_state = Some (True, duplicate_solved) \<and>
   \<not> is_solution (grid_of (matrix duplicate_solved))"
proof -
  have h: "valid_puzzle duplicate_puzzle" "\<not> consistent (parse duplicate_puzzle)"
    "length (filter (filled (parse duplicate_puzzle)) cells) < 81"
    by code_simp+
  have ld: "init duplicate_puzzle new_solver = Inr duplicate_state" by code_simp
  have s: "solve duplicate_state = Some (True, duplicate_solved)" using duplicate_run by simp
  show ?thesis using h ld s clashing_givens_never_solved [OF h, of new_solver] by auto
qed

theorem retract_type_confusion_witness:
  "updateCell Null 0 1 typed_in_state = Inr (unallocate (Key 5) 0 1 typed_in_state) \<and>
   5 \<in> row (unallocate (Key 5) 0 1 typed_in_state) ! 0 \<and>
   cellv (matrix (unallocate (Key 5) 0 1 typed_in_state)) 0 0 = Num 5 \<and>
   \<not> inv (unallocate (Key 5) 0 1 typed_in_state)"
proof -
  have h: "wf_grid (matrix typed_in_state)" "length (row typed_in_state) = 9" "(0::nat) < 9" "(1::nat) < 9"
    "(0::nat) \<noteq> 1" "cellv (matrix typed_in_state) 0 0 = Num 5"
    by code_simp+
  have "\<forall>j \<in> set [0..<9]. j \<noteq> 1 \<longrightarrow> cellv (matrix typed_in_state) 0 j \<noteq> Key 5"
    by code_simp
  then have q: "\<forall>j < 9. j \<noteq> 1 \<longrightarrow> cellv (matrix typed_in_state) 0 j \<noteq> Key 5"
    by simp
  have "cellv (matrix typed_in_state) 0 1 = Key 5" by code_simp
  then have "updateCell Null 0 1 typed_in_state = Inr (unallocate (Key 5) 0 1 typed_in_state)"
    by (simp add: updateCell_def)
  with Engine.retract_type_confusion [OF h q] show ?thesis by simp
qed

theorem init_accepts_short_input_witness:
  "\<exists>st'. init short_input new_solver = Inr st' \<and> matrix st' = parse short_input \<and> allocated st' = 2"
proof -
  have h: "short_input \<noteq> []" "length short_input < 81" by (simp_all add: short_input_def)
  have "length (filter (\<lambda>p. truthy (cellv (parse short_input) (fst p) (snd p))) cells) = 2"
    by code_simp
  with Lifecycle.init_accepts_short_input [OF h, of new_solver] show ?thesis by simp
qed

end
